theory Spec2Isabelle
  imports Complex_Main
begin

section \<open>Text of a progress line\<close>

text \<open>
  The supervised tool reports progress as lines of the form
  \<^verbatim>\<open>frame=  100 fps= 25 ...\<close>. The source reads the counter with
  \<^verbatim>\<open>int(output.split('frame=')[1].split('fps=')[0].strip())\<close>
  guarded by \<^verbatim>\<open>'frame=' in output\<close>. Strings are lists of 8-bit characters here, so the
  model covers the code points below 256 of Python's strings. Two limits of Python's
  \<^verbatim>\<open>int\<close> are left out: digits outside ASCII and the cap on the number of digits.
\<close>

definition py_isspace :: "char \<Rightarrow> bool" where
  "py_isspace c =
     (let n = (of_char c :: nat)
      in (9 \<le> n \<and> n \<le> 13) \<or> (28 \<le> n \<and> n \<le> 32) \<or> n = 133 \<or> n = 160)"

definition strip :: "string \<Rightarrow> string" where
  "strip s = rev (dropWhile py_isspace (rev (dropWhile py_isspace s)))"

definition is_digit :: "char \<Rightarrow> bool" where
  "is_digit c = (let n = (of_char c :: nat) in 48 \<le> n \<and> n \<le> 57)"

definition digit_val :: "char \<Rightarrow> int" where
  "digit_val c = int (of_char c) - 48"

text \<open>Digits with single underscores between them, as Python's integer literals allow.\<close>

fun digits_value :: "int \<Rightarrow> string \<Rightarrow> int option" where
  "digits_value acc [] = Some acc"
| "digits_value acc [c] = (if is_digit c then Some (10 * acc + digit_val c) else None)"
| "digits_value acc (c # d # cs) =
     (if is_digit c then digits_value (10 * acc + digit_val c) (d # cs)
      else if c = CHR ''_'' \<and> is_digit d then digits_value acc (d # cs)
      else None)"

definition unsigned_int :: "string \<Rightarrow> int option" where
  "unsigned_int s =
     (case s of [] \<Rightarrow> None
      | c # cs \<Rightarrow> if is_digit c then digits_value 0 (c # cs) else None)"

text \<open>\<^verbatim>\<open>int(s)\<close> in base ten: \<open>None\<close> is the \<^verbatim>\<open>ValueError\<close>.\<close>

definition py_int :: "string \<Rightarrow> int option" where
  "py_int s =
     (case strip s of [] \<Rightarrow> None
      | c # cs \<Rightarrow>
          if c = CHR ''-'' then map_option uminus (unsigned_int cs)
          else if c = CHR ''+'' then unsigned_int cs
          else unsigned_int (c # cs))"

text \<open>The text before and after the first occurrence of a separator, if it occurs.\<close>

fun split_at :: "string \<Rightarrow> string \<Rightarrow> (string \<times> string) option" where
  "split_at sep [] = None"
| "split_at sep (c # cs) =
     (if take (length sep) (c # cs) = sep then Some ([], drop (length sep) (c # cs))
      else map_option (\<lambda>(b, a). (c # b, a)) (split_at sep cs))"

text \<open>
  \<^verbatim>\<open>s.split(sep)[0]\<close>: the text before the first separator, or all of \<open>s\<close>.
  \<^verbatim>\<open>s.split(sep)[1]\<close>: the text between the first and the second separator (or to the
  end); \<open>None\<close> is the \<^verbatim>\<open>IndexError\<close> when \<open>s\<close> has no separator.
\<close>

definition split_item0 :: "string \<Rightarrow> string \<Rightarrow> string" where
  "split_item0 sep s = (case split_at sep s of None \<Rightarrow> s | Some (b, a) \<Rightarrow> b)"

definition split_item1 :: "string \<Rightarrow> string \<Rightarrow> string option" where
  "split_item1 sep s =
     (case split_at sep s of None \<Rightarrow> None | Some (b, a) \<Rightarrow> Some (split_item0 sep a))"

text \<open>
  The counter read from one line: \<open>None\<close> when the line is empty, has no
  \<^verbatim>\<open>frame=\<close> field, or the field is not an integer (the bare \<^verbatim>\<open>except: continue\<close>).
\<close>

definition parse_frame :: "string \<Rightarrow> int option" where
  "parse_frame output =
     (if output \<noteq> [] then
        (case split_item1 ''frame='' output of
           None \<Rightarrow> None
         | Some rest \<Rightarrow> py_int (strip (split_item0 ''fps='' rest)))
      else None)"


section \<open>One attempt: probe, launch, monitor loop\<close>

text \<open>
  Every \<^verbatim>\<open>raise\<close> of \<^verbatim>\<open>add_watermark_to_video\<close> and every library call whose failure
  the source catches is a value of \<open>reason\<close>. Messages are kept as constructors:
  \<open>Hard_timeout\<close> and \<open>Stalled\<close> are the two \<^verbatim>\<open>TimeoutError\<close>s of the monitor loop,
  \<open>Exit_nonzero\<close> carries the return code and the rest of the error stream, and
  \<open>Retries_exhausted n c\<close> is the final exception: its message names only the bound
  \<open>n\<close>, and \<open>c\<close> is its \<^verbatim>\<open>__context__\<close>, the exception being handled when it was
  raised (the \<^verbatim>\<open>raise\<close> of line 208 is inside the \<^verbatim>\<open>except\<close> block of line 157).
\<close>

datatype reason =
    Probe_failed
  | Total_not_int
  | Launch_failed
  | Hard_timeout
  | Stalled
  | Exit_nonzero int string
  | Retries_exhausted int "reason option"

text \<open>
  What one pass of the \<^verbatim>\<open>while True\<close> loop observes: the clock, the result of
  \<^verbatim>\<open>process.poll()\<close> and the line read from the error stream (empty when
  \<^verbatim>\<open>select\<close> timed out). Clock readings are reals; the rounding of floats is left out.
  Every observation stands for a pass that completes: a read that never returns shows as a
  list of observations that ends while the loop is still running.
\<close>

record tick =
  now :: real
  poll :: "int option"
  line :: string

record monitor_state =
  current_frame :: int
  last_frame :: int
  last_progress_time :: real

datatype loop_end = Exited int | Raised reason

text \<open>
  The stall check when it does not raise: once more than 30 seconds have passed since
  \<open>last_progress_time\<close>, the count is recorded and the window starts again.
\<close>

definition stall_window :: "real \<Rightarrow> monitor_state \<Rightarrow> monitor_state" where
  "stall_window current_time s =
     (if current_time - last_progress_time s > 30
      then s\<lparr>last_frame := current_frame s, last_progress_time := current_time\<rparr>
      else s)"

text \<open>
  \<^verbatim>\<open>current_frame / total_frames\<close> raises \<^verbatim>\<open>ZeroDivisionError\<close> for a zero
  divisor and \<^verbatim>\<open>OverflowError\<close> when the quotient, rounded to the nearest double,
  is beyond the largest one, that is from \<open>2 ^ 1024 - 2 ^ 970\<close> on in absolute value.
\<close>

definition division_raises :: "int \<Rightarrow> int \<Rightarrow> bool" where
  "division_raises a b = (b = 0 \<or> (2 ^ 1024 - 2 ^ 970) * \<bar>b\<bar> \<le> \<bar>a\<bar>)"

text \<open>
  The progress update. \<open>current_frame\<close> is assigned before the percentage is computed, so
  when the division raises, the bare \<^verbatim>\<open>except\<close> leaves the new count in place and
  skips the update of \<open>last_progress_time\<close>.
\<close>

definition read_progress :: "int \<Rightarrow> real \<Rightarrow> string \<Rightarrow> monitor_state \<Rightarrow> monitor_state" where
  "read_progress total_frames current_time text s =
     (case parse_frame text of
        None \<Rightarrow> s
      | Some f \<Rightarrow>
          if division_raises f total_frames then s\<lparr>current_frame := f\<rparr>
          else s\<lparr>current_frame := f, last_progress_time := current_time\<rparr>)"

text \<open>
  The monitor loop over the observations of its passes. The result is how the loop ended
  and the clock reading of the pass that ended it; \<open>None\<close> means the loop is still
  running when the observations end.
\<close>

fun monitor :: "real \<Rightarrow> int \<Rightarrow> real \<Rightarrow> monitor_state \<Rightarrow> tick list \<Rightarrow> (loop_end \<times> real) option" where
  "monitor timeout total_frames start_time s [] = None"
| "monitor timeout total_frames start_time s (t # ts) =
     (if now t - start_time > timeout then Some (Raised Hard_timeout, now t)
      else case poll t of
        Some rc \<Rightarrow> Some (Exited rc, now t)
      | None \<Rightarrow>
          if now t - last_progress_time s > 30 \<and> current_frame s = last_frame s
          then Some (Raised Stalled, now t)
          else monitor timeout total_frames start_time
                 (read_progress total_frames (now t) (line t) (stall_window (now t) s)) ts)"

record job =
  input_video_path :: string
  output_video_path :: string
  watermark_text :: string
  max_retries :: int
  timeout :: real

text \<open>
  What one attempt meets outside the program: the output of the frame-count query
  (\<open>None\<close> when running it raised), whether the tool could be started, the clock at the
  start of the monitor loop and the observations of its passes, whether the tool left an
  output file, and which calls of the termination and cleanup code raise.
  \<open>exits_at_poll = Some k\<close> says that the polls after the termination signal report an
  exit from the \<open>k\<close>-th on (counted from 0).
\<close>

record attempt_env =
  probe_stdout :: "string option"
  popen_ok :: bool
  start_time :: real
  ticks :: "tick list"
  stderr_rest :: string
  writes_output :: bool
  os_posix :: bool
  killpg_term_raises :: bool
  terminate_raises :: bool
  exits_at_poll :: "nat option"
  kill_raises :: bool
  wait_raises :: bool
  remove_raises :: bool

text \<open>The calls made and the lines reported, in order.\<close>

datatype event =
    Ffprobe
  | Popen
  | Report_done
  | Report_error int int reason
  | Sigterm_group
  | Terminate
  | Poll
  | Grace_sleep
  | Sigkill_group
  | Kill
  | Wait
  | Log_terminated
  | Log_terminate_error
  | Exists_check
  | Remove
  | Log_removed
  | Log_remove_failed
  | Backoff int

definition initial_state :: "real \<Rightarrow> monitor_state" where
  "initial_state t0 = \<lparr>current_frame = 0, last_frame = 0, last_progress_time = t0\<rparr>"

text \<open>
  The body of the \<^verbatim>\<open>try\<close>: the outcome, whether a process handle exists, and the calls
  made. \<open>Inr ()\<close> is the \<^verbatim>\<open>return\<close> of line 155.
\<close>

definition try_body :: "job \<Rightarrow> attempt_env \<Rightarrow> ((reason + unit) \<times> bool \<times> event list) option" where
  "try_body j e =
     (case probe_stdout e of
        None \<Rightarrow> Some (Inl Probe_failed, False, [Ffprobe])
      | Some out \<Rightarrow>
          (case py_int (strip out) of
             None \<Rightarrow> Some (Inl Total_not_int, False, [Ffprobe])
           | Some total_frames \<Rightarrow>
               if \<not> popen_ok e then Some (Inl Launch_failed, False, [Ffprobe, Popen])
               else
                 (case monitor (timeout j) total_frames (start_time e)
                         (initial_state (start_time e)) (ticks e) of
                    None \<Rightarrow> None
                  | Some (Raised r, t) \<Rightarrow> Some (Inl r, True, [Ffprobe, Popen])
                  | Some (Exited rc, t) \<Rightarrow>
                      if rc \<noteq> 0
                      then Some (Inl (Exit_nonzero rc (stderr_rest e)), True, [Ffprobe, Popen])
                      else Some (Inr (), True, [Ffprobe, Popen, Report_done]))))"


section \<open>After a failed attempt: termination, cleanup, retry\<close>

definition exited :: "nat option \<Rightarrow> nat \<Rightarrow> bool" where
  "exited ex i = (case ex of None \<Rightarrow> False | Some k \<Rightarrow> k \<le> i)"

text \<open>
  \<^verbatim>\<open>for _ in range(50): if process.poll() is not None: break; time.sleep(0.1)\<close>,
  with the number of passes left and the index of the next poll. The result is the calls
  made and the index of the poll that follows.
\<close>

fun grace_polls :: "nat option \<Rightarrow> nat \<Rightarrow> nat \<Rightarrow> event list \<times> nat" where
  "grace_polls ex 0 i = ([], i)"
| "grace_polls ex (Suc n) i =
     (if exited ex i then ([Poll], Suc i)
      else (case grace_polls ex n (Suc i) of (evs, k) \<Rightarrow> (Poll # Grace_sleep # evs, k)))"

definition wait_step :: "attempt_env \<Rightarrow> event list" where
  "wait_step e = Wait # (if wait_raises e then [Log_terminate_error] else [Log_terminated])"

text \<open>
  Lines 162 to 190, for an attempt that has a process handle. One \<^verbatim>\<open>try\<close> spans all
  four steps; only the signal to the process group has a handler of its own, which falls
  back to \<^verbatim>\<open>process.terminate()\<close>. Whatever else raises ends the block at
  \<open>Log_terminate_error\<close>.
\<close>

definition stop_process :: "attempt_env \<Rightarrow> event list" where
  "stop_process e =
     (let sig = (if os_posix e
                 then (if killpg_term_raises e then [Sigterm_group, Terminate] else [Sigterm_group])
                 else [Terminate]);
          sig_raised = (if os_posix e then killpg_term_raises e \<and> terminate_raises e
                        else terminate_raises e)
      in if sig_raised then sig @ [Log_terminate_error]
         else
           (case grace_polls (exits_at_poll e) 50 0 of
              (polls, i) \<Rightarrow>
                if exited (exits_at_poll e) i then sig @ polls @ [Poll] @ wait_step e
                else sig @ polls @ [Poll, if os_posix e then Sigkill_group else Kill]
                       @ (if kill_raises e then [Log_terminate_error] else wait_step e)))"

text \<open>
  Lines 192 to 198 on the set of existing paths: the file is removed when it is there
  and \<^verbatim>\<open>os.remove\<close> does not raise; a raise is logged and the file stays.
\<close>

definition cleanup :: "string \<Rightarrow> bool \<Rightarrow> string set \<Rightarrow> string set \<times> event list" where
  "cleanup path raises fs =
     (if path \<in> fs
      then (if raises then (fs, [Exists_check, Remove, Log_remove_failed])
            else (fs - {path}, [Exists_check, Remove, Log_removed]))
      else (fs, [Exists_check]))"

text \<open>The calls of the handler of a failed attempt, after the report of the error.\<close>

definition handler_events :: "job \<Rightarrow> attempt_env \<Rightarrow> bool \<Rightarrow> string set \<Rightarrow> event list" where
  "handler_events j e launched fs1 =
     (if launched then stop_process e else [])
       @ snd (cleanup (output_video_path j) (remove_raises e) fs1)"

datatype step = Returned | Continue | Reraised reason

text \<open>
  One pass of \<^verbatim>\<open>while retry_count < max_retries\<close>, entered with \<open>retry_count\<close>: how the
  pass ends, the paths that exist afterwards and the calls made. \<open>Continue\<close> is the
  \<^verbatim>\<open>continue\<close> of line 205, taken with \<open>retry_count + 1\<close>.
\<close>

definition attempt :: "job \<Rightarrow> attempt_env \<Rightarrow> int \<Rightarrow> string set \<Rightarrow> (step \<times> string set \<times> event list) option" where
  "attempt j e retry_count fs =
     (case try_body j e of
        None \<Rightarrow> None
      | Some (res, launched, evs) \<Rightarrow>
          (let fs1 = (if launched \<and> writes_output e then insert (output_video_path j) fs else fs)
           in case res of
                Inr u \<Rightarrow> Some (Returned, fs1, evs)
              | Inl r \<Rightarrow>
                  (case cleanup (output_video_path j) (remove_raises e) fs1 of
                     (fs2, removal) \<Rightarrow>
                       (let rc = retry_count + 1;
                            evs2 = evs @ [Report_error rc (max_retries j) r]
                                     @ (if launched then stop_process e else []) @ removal
                        in if rc < max_retries j
                           then Some (Continue, fs2, evs2 @ [Backoff (5 * rc)])
                           else Some (Reraised (Retries_exhausted (max_retries j) (Some r)),
                                      fs2, evs2)))))"

datatype job_result = Success | Failed reason

text \<open>
  The retry loop. Attempt number \<open>retry_count\<close> (from 0) meets the environment
  \<open>env retry_count\<close>. Leaving the loop by its condition is a normal return.
\<close>

function retry_loop :: "job \<Rightarrow> (int \<Rightarrow> attempt_env) \<Rightarrow> int \<Rightarrow> string set \<Rightarrow> (job_result \<times> string set \<times> event list) option" where
  "retry_loop j env retry_count fs =
     (if retry_count < max_retries j then
        (case attempt j (env retry_count) retry_count fs of
           None \<Rightarrow> None
         | Some (Returned, fs1, evs) \<Rightarrow> Some (Success, fs1, evs)
         | Some (Reraised r, fs1, evs) \<Rightarrow> Some (Failed r, fs1, evs)
         | Some (Continue, fs1, evs) \<Rightarrow>
             (case retry_loop j env (retry_count + 1) fs1 of
                None \<Rightarrow> None
              | Some (res, fs2, evs2) \<Rightarrow> Some (res, fs2, evs @ evs2)))
      else Some (Success, fs, []))"
  by pat_completeness auto
termination
  by (relation "measure (\<lambda>(j, env, retry_count, fs). nat (max_retries j - retry_count))") auto

declare retry_loop.simps [simp del]

definition add_watermark_to_video :: "job \<Rightarrow> (int \<Rightarrow> attempt_env) \<Rightarrow> string set \<Rightarrow> (job_result \<times> string set \<times> event list) option" where
  "add_watermark_to_video j env fs = retry_loop j env 0 fs"

text \<open>What the log of a job shows: its attempts, its backoff waits, its reports.\<close>

definition attempts :: "event list \<Rightarrow> nat" where
  "attempts evs = length (filter (\<lambda>ev. ev = Ffprobe) evs)"

fun backoffs :: "event list \<Rightarrow> int list" where
  "backoffs [] = []"
| "backoffs (Backoff w # evs) = w # backoffs evs"
| "backoffs (ev # evs) = backoffs evs"

fun is_error_report :: "event \<Rightarrow> bool" where
  "is_error_report (Report_error k n r) = True"
| "is_error_report ev = False"


section \<open>The batch\<close>

definition lower_char :: "char \<Rightarrow> char" where
  "lower_char c =
     (let n = (of_char c :: nat) in if 65 \<le> n \<and> n \<le> 90 then char_of (n + 32) else c)"

definition endswith :: "string \<Rightarrow> string \<Rightarrow> bool" where
  "endswith s suffix =
     (length suffix \<le> length s \<and> drop (length s - length suffix) s = suffix)"

definition video_extensions :: "string list" where
  "video_extensions = [''.mp4'', ''.avi'', ''.mov'', ''.mkv'']"

definition is_video :: "string \<Rightarrow> bool" where
  "is_video filename = list_ex (endswith (map lower_char filename)) video_extensions"

definition path_join :: "string \<Rightarrow> string \<Rightarrow> string" where
  "path_join a b =
     (if take 1 b = ''/'' then b
      else if a = [] \<or> endswith a ''/'' then a @ b
      else a @ ''/'' @ b)"

definition basename :: "string \<Rightarrow> string" where
  "basename p = rev (takeWhile (\<lambda>c. c \<noteq> CHR ''/'') (rev p))"

text \<open>
  What the dispatcher prints of an exception is \<^verbatim>\<open>str(e)\<close>, its message: the
  context is not part of it.
\<close>

fun str_only :: "reason \<Rightarrow> reason" where
  "str_only (Retries_exhausted n c) = Retries_exhausted n None"
| "str_only r = r"

text \<open>
  The tasks run one after the other (\<^verbatim>\<open>max_workers = 1\<close>), each with
  \<^verbatim>\<open>max_retries=3\<close> and \<^verbatim>\<open>timeout=3600\<close>. An exception of a job is caught and
  printed (line 260); the result is the list of these lines, as file name and message.
\<close>

fun run_tasks :: "(job \<times> (int \<Rightarrow> attempt_env)) list \<Rightarrow> string set \<Rightarrow> ((string \<times> reason) list \<times> string set) option" where
  "run_tasks [] fs = Some ([], fs)"
| "run_tasks ((j, env) # rest) fs =
     (case add_watermark_to_video j env fs of
        None \<Rightarrow> None
      | Some (res, fs1, evs) \<Rightarrow>
          (case run_tasks rest fs1 of
             None \<Rightarrow> None
           | Some (errors, fs2) \<Rightarrow>
               (case res of
                  Success \<Rightarrow> Some (errors, fs2)
                | Failed r \<Rightarrow> Some ((basename (input_video_path j), str_only r) # errors, fs2))))"

definition make_task :: "string \<Rightarrow> string \<Rightarrow> string \<Rightarrow> string \<times> (int \<Rightarrow> attempt_env) \<Rightarrow> job \<times> (int \<Rightarrow> attempt_env)" where
  "make_task input_folder output_folder text entry =
     (\<lparr>input_video_path = path_join input_folder (fst entry),
       output_video_path = path_join output_folder (fst entry),
       watermark_text = text, max_retries = 3, timeout = 3600\<rparr>, snd entry)"

text \<open>
  How \<^verbatim>\<open>process_videos_in_folder\<close> ends: with an exception of its own, or by returning.
  It returns nothing in the source: the value kept here is what it printed about failed
  jobs and the paths that exist afterwards.
\<close>

datatype batch_end = Batch_raised | Batch_returned "(string \<times> reason) list" "string set"

text \<open>
  \<^verbatim>\<open>os.makedirs\<close> and \<^verbatim>\<open>os.listdir\<close> (lines 215 to 223) are outside any
  \<^verbatim>\<open>try\<close>: when one of them raises, the listing is \<open>None\<close> and the exception leaves
  the function. Otherwise the listing is the file names of the input folder with, for each,
  the environments its attempts would meet.
\<close>

definition process_videos_in_folder :: "string \<Rightarrow> string \<Rightarrow> string \<Rightarrow> (string \<times> (int \<Rightarrow> attempt_env)) list option \<Rightarrow> string set \<Rightarrow> batch_end option" where
  "process_videos_in_folder input_folder output_folder text listing fs =
     (case listing of
        None \<Rightarrow> Some Batch_raised
      | Some entries \<Rightarrow>
          (let tasks = map (make_task input_folder output_folder text)
                         (filter (\<lambda>entry. is_video (fst entry)) entries)
           in if tasks = [] then Some (Batch_returned [] fs)
              else (case run_tasks tasks fs of
                      None \<Rightarrow> None
                    | Some (errors, fs1) \<Rightarrow> Some (Batch_returned errors fs1))))"

text \<open>
  The script: \<^verbatim>\<open>exit(1)\<close> when the tool is not installed; exit status 1 as well when
  an exception leaves \<^verbatim>\<open>process_videos_in_folder\<close>, since nothing catches it; otherwise
  the script ends, which is exit status 0. The result is the exit status and the failures
  printed. The folders and the watermark text are fixed strings in the source and
  parameters here.
\<close>

definition main :: "bool \<Rightarrow> string \<Rightarrow> string \<Rightarrow> string \<Rightarrow> (string \<times> (int \<Rightarrow> attempt_env)) list option \<Rightarrow> string set \<Rightarrow> (nat \<times> (string \<times> reason) list) option" where
  "main ffmpeg_installed input_folder output_folder text listing fs =
     (if \<not> ffmpeg_installed then Some (1, [])
      else (case process_videos_in_folder input_folder output_folder text listing fs of
              None \<Rightarrow> None
            | Some Batch_raised \<Rightarrow> Some (1, [])
            | Some (Batch_returned errors fs1) \<Rightarrow> Some (0, errors)))"

section \<open>Conditions on the observations of the monitor loop\<close>

text \<open>
  A pass is quiet when the process is alive, the hard timeout has not passed and the line
  read holds no frame count.
\<close>

definition quiet :: "real \<Rightarrow> real \<Rightarrow> tick \<Rightarrow> bool" where
  "quiet tmo t0 u = (poll u = None \<and> now u - t0 \<le> tmo \<and> parse_frame (line u) = None)"

text \<open>The clock does not go back, and two passes in a row are at most \<open>d\<close> apart.\<close>

fun paced :: "real \<Rightarrow> real \<Rightarrow> tick list \<Rightarrow> bool" where
  "paced d p [] = True"
| "paced d p (u # us) = (p \<le> now u \<and> now u \<le> p + d \<and> paced d (now u) us)"

text \<open>
  The observations of an attempt end its monitor loop for sure when some pass sees the
  hard timeout passed or the process gone.
\<close>

definition decisive :: "real \<Rightarrow> attempt_env \<Rightarrow> bool" where
  "decisive tmo e = list_ex (\<lambda>u. now u - start_time e > tmo \<or> poll u \<noteq> None) (ticks e)"

section \<open>Sample jobs and environments\<close>

definition sample_job :: job where
  "sample_job = \<lparr>input_video_path = ''in/a.mp4'', output_video_path = ''out/a.mp4'',
     watermark_text = ''TikTok'', max_retries = 3, timeout = 3600\<rparr>"

text \<open>The tool is found, the frame count is 240 and the process has left with status 0 at the first pass.\<close>

definition ok_env :: attempt_env where
  "ok_env = \<lparr>probe_stdout = Some ''240\<newline>'', popen_ok = True, start_time = 0,
     ticks = [\<lparr>now = 1, poll = Some 0, line = ''''\<rparr>], stderr_rest = '''',
     writes_output = True, os_posix = True, killpg_term_raises = False,
     terminate_raises = False, exits_at_poll = Some 0, kill_raises = False,
     wait_raises = False, remove_raises = False\<rparr>"

text \<open>The process leaves with status 1 at the first pass.\<close>

definition exit1_env :: attempt_env where
  "exit1_env = ok_env\<lparr>ticks := [\<lparr>now = 1, poll = Some 1, line = ''''\<rparr>]\<rparr>"

text \<open>The frame-count query prints \<^verbatim>\<open>N/A\<close>; the tool itself would succeed.\<close>

definition na_env :: attempt_env where
  "na_env = ok_env\<lparr>probe_stdout := Some ''N/A''\<rparr>"

text \<open>The process lives, prints nothing that holds a frame count, and is polled at 10, 20 and 31 seconds.\<close>

definition silent_env :: attempt_env where
  "silent_env = ok_env\<lparr>ticks :=
     [\<lparr>now = 10, poll = None, line = ''Press [q] to stop''\<rparr>,
      \<lparr>now = 20, poll = None, line = ''''\<rparr>,
      \<lparr>now = 31, poll = None, line = ''''\<rparr>]\<rparr>"

text \<open>
  The same process ignores the termination signal, never leaves during the grace window,
  and the kill of its group raises.
\<close>

definition stuck_env :: attempt_env where
  "stuck_env = silent_env\<lparr>exits_at_poll := None, kill_raises := True\<rparr>"

text \<open>The process fails and the partial output file cannot be removed.\<close>

definition locked_env :: attempt_env where
  "locked_env = exit1_env\<lparr>remove_raises := True\<rparr>"

text \<open>
  One second passes between polls. The first pass reads frame 100, then the process
  stays alive and silent.
\<close>

definition silent_ticks :: "tick list" where
  "silent_ticks = map (\<lambda>k. \<lparr>now = real k, poll = None, line = ''''\<rparr>) [2..<64]"

definition stalling_ticks :: "tick list" where
  "stalling_ticks = \<lparr>now = 1, poll = None, line = ''frame=  100 fps= 25 q=28.0''\<rparr> # silent_ticks"

text \<open>Every attempt of a job meets the same environment.\<close>

definition always :: "attempt_env \<Rightarrow> int \<Rightarrow> attempt_env" where
  "always e k = e"

text \<open>The first two attempts fail with status 1, the third stalls.\<close>

definition fail_then_stall :: "int \<Rightarrow> attempt_env" where
  "fail_then_stall k = (if k < 2 then exit1_env else silent_env)"

text \<open>The first two attempts fail with status 1, the third succeeds.\<close>

definition fail_twice_then_ok :: "int \<Rightarrow> attempt_env" where
  "fail_twice_then_ok k = (if k < 2 then exit1_env else ok_env)"

text \<open>A pass at second \<open>k\<close> that finds the process alive and reads a progress line.\<close>

definition busy :: "nat \<Rightarrow> tick" where
  "busy k = \<lparr>now = real k, poll = None, line = ''frame=  100 fps= 25 q=28.0''\<rparr>"

text \<open>
  The process is alive and prints the same progress line, with the same count, once a
  second for two minutes.
\<close>

definition repeating_ticks :: "tick list" where
  "repeating_ticks = map busy [1..<121]"

text \<open>
  The process prints a progress line once a second for an hour and has left with status 0
  when the pass at second 3601 runs.
\<close>

definition hour_ticks :: "tick list" where
  "hour_ticks = map busy [Suc 0..<Suc 3600] @ [\<lparr>now = 3601, poll = Some 0, line = ''''\<rparr>]"

definition late_env :: attempt_env where
  "late_env = ok_env\<lparr>ticks := hour_ticks\<rparr>"

text \<open>Creating the output folder or listing the input folder raises.\<close>

definition no_listing :: "(string \<times> (int \<Rightarrow> attempt_env)) list option" where
  "no_listing = None"

text \<open>A folder with one video whose tool fails every time, and one file that is no video.\<close>

definition failing_folder :: "(string \<times> (int \<Rightarrow> attempt_env)) list option" where
  "failing_folder = Some [(''a.mp4'', always exit1_env), (''notes.txt'', always ok_env)]"

text \<open>
  The process has left with status 1 and has been reaped, so the signal to its group
  raises and the handler falls back to the process alone.
\<close>

definition reaped_env :: attempt_env where
  "reaped_env = exit1_env\<lparr>killpg_term_raises := True\<rparr>"

text \<open>Neither the signal to the group nor the signal to the process itself can be sent.\<close>

definition unsignalled_env :: attempt_env where
  "unsignalled_env = exit1_env\<lparr>killpg_term_raises := True, terminate_raises := True\<rparr>"


section \<open>The monitor loop on quiet passes\<close>

lemma quiet_pass:
  assumes "quiet tmo t0 u" and "\<not> now u - last_progress_time s > 30"
  shows "monitor tmo tf t0 s (u # us) = monitor tmo tf t0 s us"
  using assms by (simp add: quiet_def stall_window_def read_progress_def)

lemma quiet_stall:
  assumes "quiet tmo t0 u" and "now u - last_progress_time s > 30" and "current_frame s = last_frame s"
  shows "monitor tmo tf t0 s (u # us) = Some (Raised Stalled, now u)"
  using assms by (simp add: quiet_def)

lemma quiet_restart:
  assumes "quiet tmo t0 u" and "now u - last_progress_time s > 30" and "current_frame s \<noteq> last_frame s"
  shows "monitor tmo tf t0 s (u # us) =
         monitor tmo tf t0 (s\<lparr>last_frame := current_frame s, last_progress_time := now u\<rparr>) us"
  using assms by (simp add: quiet_def stall_window_def read_progress_def)

lemma one_window:
  assumes "current_frame s = last_frame s"
    and "paced d p us" and "p \<le> last_progress_time s + 30"
    and "\<forall>u\<in>set us. quiet tmo t0 u"
    and "\<exists>u\<in>set us. now u > last_progress_time s + 30"
  shows "\<exists>T. monitor tmo tf t0 s us = Some (Raised Stalled, T)
           \<and> last_progress_time s + 30 < T \<and> T \<le> last_progress_time s + 30 + d"
  using assms
proof (induction us arbitrary: p)
  case Nil
  then show ?case by simp
next
  case (Cons u us)
  have q: "quiet tmo t0 u" using Cons.prems(4) by simp
  show ?case
  proof (cases "now u - last_progress_time s > 30")
    case True
    have "now u \<le> last_progress_time s + 30 + d" using Cons.prems(2,3) by simp
    with True quiet_stall [OF q True Cons.prems(1)] show ?thesis by simp
  next
    case False
    have "\<exists>T. monitor tmo tf t0 s us = Some (Raised Stalled, T)
           \<and> last_progress_time s + 30 < T \<and> T \<le> last_progress_time s + 30 + d"
    proof (rule Cons.IH [of "now u"])
      show "current_frame s = last_frame s" by (rule Cons.prems(1))
      show "paced d (now u) us" using Cons.prems(2) by simp
      show "now u \<le> last_progress_time s + 30" using False by simp
      show "\<forall>u\<in>set us. quiet tmo t0 u" using Cons.prems(4) by simp
      show "\<exists>u\<in>set us. now u > last_progress_time s + 30" using Cons.prems(5) False by auto
    qed
    with quiet_pass [OF q False] show ?thesis by simp
  qed
qed

lemma two_windows:
  assumes "paced d p us" and "p \<le> last_progress_time s + 30"
    and "\<forall>u\<in>set us. quiet tmo t0 u"
    and "\<exists>u\<in>set us. now u > last_progress_time s + 60 + d"
  shows "\<exists>T. monitor tmo tf t0 s us = Some (Raised Stalled, T)
           \<and> last_progress_time s + 30 < T
           \<and> T \<le> last_progress_time s + (if current_frame s = last_frame s then 30 + d else 2 * (30 + d))"
  using assms
proof (induction us arbitrary: p)
  case Nil
  then show ?case by simp
next
  case (Cons u us)
  have q: "quiet tmo t0 u" using Cons.prems(3) by simp
  have d0: "0 \<le> d" using Cons.prems(1) by simp
  show ?case
  proof (cases "now u - last_progress_time s > 30")
    case True
    have near: "now u \<le> last_progress_time s + 30 + d" using Cons.prems(1,2) by simp
    show ?thesis
    proof (cases "current_frame s = last_frame s")
      case same: True
      with True near quiet_stall [OF q True same] show ?thesis by simp
    next
      case differ: False
      let ?s = "s\<lparr>last_frame := current_frame s, last_progress_time := now u\<rparr>"
      have "\<exists>T. monitor tmo tf t0 ?s us = Some (Raised Stalled, T)
              \<and> last_progress_time ?s + 30 < T \<and> T \<le> last_progress_time ?s + 30 + d"
      proof (rule one_window [of ?s d "now u"])
        show "current_frame ?s = last_frame ?s" by simp
        show "paced d (now u) us" using Cons.prems(1) by simp
        show "now u \<le> last_progress_time ?s + 30" by simp
        show "\<forall>u\<in>set us. quiet tmo t0 u" using Cons.prems(3) by simp
        show "\<exists>v\<in>set us. now v > last_progress_time ?s + 30"
        proof -
          from Cons.prems(4) near obtain v
            where v: "v \<in> set us" "now v > last_progress_time s + 60 + d" by auto
          from v(2) near have "now v > last_progress_time ?s + 30" by simp
          with v(1) show ?thesis by blast
        qed
      qed
      then obtain T where T: "monitor tmo tf t0 ?s us = Some (Raised Stalled, T)"
        "now u + 30 < T" "T \<le> now u + 30 + d" by auto
      from T True near differ quiet_restart [OF q True differ] show ?thesis by simp
    qed
  next
    case False
    have "\<exists>T. monitor tmo tf t0 s us = Some (Raised Stalled, T)
           \<and> last_progress_time s + 30 < T
           \<and> T \<le> last_progress_time s + (if current_frame s = last_frame s then 30 + d else 2 * (30 + d))"
    proof (rule Cons.IH [of "now u"])
      show "paced d (now u) us" using Cons.prems(1) by simp
      show "now u \<le> last_progress_time s + 30" using False by simp
      show "\<forall>u\<in>set us. quiet tmo t0 u" using Cons.prems(3) by simp
      show "\<exists>u\<in>set us. now u > last_progress_time s + 60 + d" using Cons.prems(4) False d0 by auto
    qed
    with quiet_pass [OF q False] show ?thesis by simp
  qed
qed

lemma before_window:
  assumes "\<forall>u\<in>set pre. quiet tmo t0 u \<and> now u - last_progress_time s \<le> 30"
  shows "monitor tmo tf t0 s (pre @ rest) = monitor tmo tf t0 s rest"
  using assms
proof (induction pre)
  case Nil
  then show ?case by simp
next
  case (Cons u pre)
  have "quiet tmo t0 u" and "\<not> now u - last_progress_time s > 30" using Cons.prems by auto
  then have "monitor tmo tf t0 s (u # (pre @ rest)) = monitor tmo tf t0 s (pre @ rest)"
    by (rule quiet_pass)
  with Cons show ?case by simp
qed


section \<open>Logs of the handler and of one attempt\<close>

lemma backoffs_append: "backoffs (a @ b) = backoffs a @ backoffs b"
  by (induction a rule: backoffs.induct) simp_all

lemma backoffs_none: "\<forall>w. Backoff w \<notin> set evs \<Longrightarrow> backoffs evs = []"
proof (induction evs)
  case Nil
  then show ?case by simp
next
  case (Cons ev evs)
  then show ?case by (cases ev) auto
qed

lemma grace_polls_events: "set (fst (grace_polls ex n i)) \<subseteq> {Poll, Grace_sleep}"
proof (induction n arbitrary: i)
  case 0
  then show ?case by simp
next
  case (Suc n)
  from Suc.IH [of "Suc i"] show ?case by (auto split: prod.splits)
qed

lemma stop_process_events:
  "set (stop_process e) \<subseteq> {Sigterm_group, Terminate, Poll, Grace_sleep, Sigkill_group, Kill,
       Wait, Log_terminated, Log_terminate_error}"
proof -
  obtain polls i where g: "grace_polls (exits_at_poll e) 50 0 = (polls, i)"
    by (cases "grace_polls (exits_at_poll e) 50 0")
  with grace_polls_events [of "exits_at_poll e" 50 0] have "set polls \<subseteq> {Poll, Grace_sleep}"
    by simp
  with g show ?thesis
    by (auto simp: stop_process_def wait_step_def Let_def)
qed

lemma cleanup_events:
  "set (snd (cleanup path raises fs)) \<subseteq> {Exists_check, Remove, Log_removed, Log_remove_failed}"
  by (simp add: cleanup_def)

lemma cleanup_checks: "Exists_check \<in> set (snd (cleanup path raises fs))"
  by (simp add: cleanup_def)

lemma try_body_events:
  assumes "try_body j e = Some (res, launched, evs)"
  shows "evs = [Ffprobe] \<and> \<not> launched \<and> (\<exists>r. res = Inl r)
       \<or> evs = [Ffprobe, Popen] \<and> (\<exists>r. res = Inl r)
       \<or> evs = [Ffprobe, Popen, Report_done] \<and> launched \<and> res = Inr ()"
  using assms
  by (auto simp: try_body_def split: option.splits if_splits loop_end.splits prod.splits)

lemma attempt_returned:
  assumes "try_body j e = Some (Inr u, launched, tevs)"
  shows "attempt j e rc fs =
           Some (Returned, (if launched \<and> writes_output e then insert (output_video_path j) fs else fs), tevs)"
  using assms by (simp add: attempt_def)

lemma attempt_failed:
  assumes "try_body j e = Some (Inl r, launched, tevs)"
  shows "attempt j e rc fs =
     Some (if rc + 1 < max_retries j then Continue
           else Reraised (Retries_exhausted (max_retries j) (Some r)),
           fst (cleanup (output_video_path j) (remove_raises e)
                  (if launched \<and> writes_output e then insert (output_video_path j) fs else fs)),
           tevs @ [Report_error (rc + 1) (max_retries j) r]
             @ handler_events j e launched
                 (if launched \<and> writes_output e then insert (output_video_path j) fs else fs)
             @ (if rc + 1 < max_retries j then [Backoff (5 * (rc + 1))] else []))"
  using assms by (simp add: attempt_def handler_events_def Let_def split: prod.splits)

lemma handler_events_plain:
  "set (handler_events j e launched fs1) \<subseteq> {Sigterm_group, Terminate, Poll, Grace_sleep,
     Sigkill_group, Kill, Wait, Log_terminated, Log_terminate_error,
     Exists_check, Remove, Log_removed, Log_remove_failed}"
  using stop_process_events [of e] cleanup_events [of "output_video_path j" "remove_raises e" fs1]
  by (auto simp: handler_events_def)

lemma filter_none: "\<forall>x\<in>set xs. \<not> P x \<Longrightarrow> filter P xs = []"
  by (induction xs) simp_all

lemma handler_no_probe: "filter (\<lambda>ev. ev = Ffprobe) (handler_events j e l fs1) = []"
  using handler_events_plain [of j e l fs1] by (intro filter_none) auto

lemma handler_no_done: "filter (\<lambda>ev. ev = Report_done) (handler_events j e l fs1) = []"
  using handler_events_plain [of j e l fs1] by (intro filter_none) auto

lemma handler_no_error_report: "filter is_error_report (handler_events j e l fs1) = []"
  using handler_events_plain [of j e l fs1] by (intro filter_none) auto

lemma handler_no_backoff: "backoffs (handler_events j e l fs1) = []"
  using handler_events_plain [of j e l fs1] by (intro backoffs_none) auto

text \<open>What the log of one pass of the retry loop shows.\<close>

lemma attempt_log:
  assumes "attempt j e rc fs = Some (st, fs', evs)"
  shows "attempts evs = 1"
    and "backoffs evs = (if st = Continue then [5 * (rc + 1)] else [])"
    and "length (filter is_error_report evs) = (if st = Returned then 0 else 1)"
    and "length (filter (\<lambda>ev. ev = Report_done) evs) = (if st = Returned then 1 else 0)"
    and "st = Continue \<longleftrightarrow> st \<noteq> Returned \<and> rc + 1 < max_retries j"
    and "st \<noteq> Returned \<and> st \<noteq> Continue
           \<longleftrightarrow> (\<exists>c. st = Reraised (Retries_exhausted (max_retries j) (Some c)))"
proof -
  obtain res launched tevs where t: "try_body j e = Some (res, launched, tevs)"
    using assms by (cases "try_body j e") (auto simp: attempt_def)
  note shape = try_body_events [OF t]
  show "attempts evs = 1"
    using assms shape t
    by (cases res) (auto simp: attempts_def attempt_failed attempt_returned handler_no_probe split: if_splits)
  show "backoffs evs = (if st = Continue then [5 * (rc + 1)] else [])"
    using assms shape t
    by (cases res) (auto simp: attempt_failed attempt_returned backoffs_append handler_no_backoff split: if_splits)
  show "length (filter is_error_report evs) = (if st = Returned then 0 else 1)"
    using assms shape t
    by (cases res) (auto simp: attempt_failed attempt_returned handler_no_error_report split: if_splits)
  show "length (filter (\<lambda>ev. ev = Report_done) evs) = (if st = Returned then 1 else 0)"
    using assms shape t
    by (cases res) (auto simp: attempt_failed attempt_returned handler_no_done split: if_splits)
  show "st = Continue \<longleftrightarrow> st \<noteq> Returned \<and> rc + 1 < max_retries j"
    using assms shape t
    by (cases res) (auto simp: attempt_failed attempt_returned split: if_splits)
  show "st \<noteq> Returned \<and> st \<noteq> Continue
           \<longleftrightarrow> (\<exists>c. st = Reraised (Retries_exhausted (max_retries j) (Some c)))"
    using assms shape t
    by (cases res) (auto simp: attempt_failed attempt_returned split: if_splits)
qed

section \<open>The retry loop\<close>

lemma retry_loop_induct [case_names pass]:
  assumes "\<And>rc fs. (\<And>fs1 evs1. rc < max_retries j \<Longrightarrow>
              attempt j (env rc) rc fs = Some (Continue, fs1, evs1) \<Longrightarrow> P (rc + 1) fs1) \<Longrightarrow> P rc fs"
  shows "P rc fs"
proof (induction "nat (max_retries j - rc)" arbitrary: rc fs rule: less_induct)
  case less
  show ?case
  proof (rule assms)
    fix fs1 evs1
    assume "rc < max_retries j"
    then have "nat (max_retries j - (rc + 1)) < nat (max_retries j - rc)" by simp
    then show "P (rc + 1) fs1" by (rule less)
  qed
qed

lemma retry_loop_cases [consumes 1, case_names exit returned reraised continue]:
  assumes "retry_loop j env rc fs = Some (res, fs', evs)"
  obtains "\<not> rc < max_retries j" "res = Success" "fs' = fs" "evs = []"
  | "rc < max_retries j" "attempt j (env rc) rc fs = Some (Returned, fs', evs)" "res = Success"
  | r where "rc < max_retries j" "attempt j (env rc) rc fs = Some (Reraised r, fs', evs)"
      "res = Failed r"
  | fs1 evs1 evs2 where "rc < max_retries j"
      "attempt j (env rc) rc fs = Some (Continue, fs1, evs1)"
      "retry_loop j env (rc + 1) fs1 = Some (res, fs', evs2)" "evs = evs1 @ evs2"
  using assms
  by (subst (asm) retry_loop.simps)
     (auto split: if_splits option.splits prod.splits step.splits)

lemma retry_loop_exit: "\<not> rc < max_retries j \<Longrightarrow> retry_loop j env rc fs = Some (Success, fs, [])"
  by (subst retry_loop.simps) simp

lemma retry_loop_returned:
  "rc < max_retries j \<Longrightarrow> attempt j (env rc) rc fs = Some (Returned, fs1, evs)
   \<Longrightarrow> retry_loop j env rc fs = Some (Success, fs1, evs)"
  by (subst retry_loop.simps) simp

lemma retry_loop_reraised:
  "rc < max_retries j \<Longrightarrow> attempt j (env rc) rc fs = Some (Reraised r, fs1, evs)
   \<Longrightarrow> retry_loop j env rc fs = Some (Failed r, fs1, evs)"
  by (subst retry_loop.simps) simp

lemma retry_loop_continue:
  "rc < max_retries j \<Longrightarrow> attempt j (env rc) rc fs = Some (Continue, fs1, evs1)
   \<Longrightarrow> retry_loop j env (rc + 1) fs1 = Some (res, fs2, evs2)
   \<Longrightarrow> retry_loop j env rc fs = Some (res, fs2, evs1 @ evs2)"
  by (subst retry_loop.simps) simp

lemma attempts_append: "attempts (a @ b) = attempts a + attempts b"
  by (simp add: attempts_def)

lemma retry_loop_backoffs:
  "retry_loop j env rc fs = Some (res, fs', evs)
   \<Longrightarrow> backoffs evs = map (\<lambda>k. 5 * k) [rc + 1 .. rc + int (length (backoffs evs))]"
proof (induction rc fs arbitrary: res fs' evs rule: retry_loop_induct [of j env])
  case (pass rc fs)
  from pass.prems show ?case
  proof (cases rule: retry_loop_cases)
    case exit
    then show ?thesis by simp
  next
    case returned
    then show ?thesis using attempt_log(2) [OF returned(2)] by simp
  next
    case (reraised r)
    then show ?thesis using attempt_log(2) [OF reraised(2)] by simp
  next
    case (continue fs1 evs1 evs2)
    let ?n = "int (length (backoffs evs2))"
    have one: "backoffs evs1 = [5 * (rc + 1)]" using attempt_log(2) [OF continue(2)] by simp
    have rest: "backoffs evs2 = map (\<lambda>k. 5 * k) [rc + 1 + 1 .. rc + 1 + ?n]"
      by (rule pass.IH [OF continue(1,2,3)])
    have "[rc + 1 .. rc + (1 + ?n)] = (rc + 1) # [rc + 1 + 1 .. rc + 1 + ?n]"
      by (subst upto_rec1) (simp_all add: add.assoc)
    with one rest continue(4) show ?thesis
      by (simp add: backoffs_append)
  qed
qed

lemma retry_loop_reports:
  "retry_loop j env rc fs = Some (res, fs', evs)
   \<Longrightarrow> length (filter is_error_report evs) + length (filter (\<lambda>ev. ev = Report_done) evs)
         = attempts evs
       \<and> length (filter (\<lambda>ev. ev = Report_done) evs)
         = (if res = Success \<and> rc < max_retries j then 1 else 0)
       \<and> (res = Success \<or> (\<exists>c. res = Failed (Retries_exhausted (max_retries j) (Some c))))"
proof (induction rc fs arbitrary: res fs' evs rule: retry_loop_induct [of j env])
  case (pass rc fs)
  from pass.prems show ?case
  proof (cases rule: retry_loop_cases)
    case exit
    then show ?thesis by (simp add: attempts_def)
  next
    case returned
    then show ?thesis using attempt_log(1,3,4) [OF returned(2)] by simp
  next
    case (reraised r)
    then show ?thesis using attempt_log(1,3,4,6) [OF reraised(2)] by simp
  next
    case (continue fs1 evs1 evs2)
    note IH = pass.IH [OF continue(1,2,3)]
    have more: "res = Success \<longrightarrow> rc + 1 < max_retries j"
      using IH continue(3) attempt_log(5) [OF continue(2)] by simp
    from IH more continue(1,4) attempt_log(1,3,4) [OF continue(2)] show ?thesis
      by (simp add: attempts_append)
  qed
qed

lemma monitor_decides:
  "list_ex (\<lambda>u. now u - t0 > tmo \<or> poll u \<noteq> None) us \<Longrightarrow> monitor tmo tf t0 s us \<noteq> None"
proof (induction us arbitrary: s)
  case Nil
  then show ?case by simp
next
  case (Cons u us)
  show ?case
  proof (cases "now u - t0 > tmo \<or> poll u \<noteq> None")
    case True
    then show ?thesis by (auto split: option.splits)
  next
    case False
    with Cons.prems have "list_ex (\<lambda>u. now u - t0 > tmo \<or> poll u \<noteq> None) us" by simp
    from Cons.IH [OF this] False show ?thesis by simp
  qed
qed

lemma try_body_decides:
  assumes "decisive (timeout j) e"
  shows "try_body j e \<noteq> None"
proof (cases "probe_stdout e")
  case None
  then show ?thesis by (auto simp: try_body_def)
next
  case (Some out)
  show ?thesis
  proof (cases "py_int (strip out)")
    case None
    with Some show ?thesis by (auto simp: try_body_def)
  next
    case tf: (Some tf)
    have "monitor (timeout j) tf (start_time e) (initial_state (start_time e)) (ticks e) \<noteq> None"
      using assms unfolding decisive_def by (rule monitor_decides)
    then obtain r t
      where "monitor (timeout j) tf (start_time e) (initial_state (start_time e)) (ticks e) = Some (r, t)"
      by auto
    with Some tf show ?thesis by (cases r) (auto simp: try_body_def)
  qed
qed

lemma attempt_decides:
  assumes "decisive (timeout j) e"
  shows "\<exists>st fs' evs. attempt j e rc fs = Some (st, fs', evs)"
proof -
  from try_body_decides [OF assms] obtain x where "try_body j e = Some x" by blast
  then obtain res l t where "try_body j e = Some (res, l, t)" by (cases x) simp
  then show ?thesis
    by (cases res) (simp_all add: attempt_failed attempt_returned)
qed

lemma retry_loop_decides:
  "\<forall>k. rc \<le> k \<and> k < max_retries j \<longrightarrow> decisive (timeout j) (env k)
   \<Longrightarrow> \<exists>res fs' evs. retry_loop j env rc fs = Some (res, fs', evs)"
proof (induction rc fs rule: retry_loop_induct [of j env])
  case (pass rc fs)
  show ?case
  proof (cases "rc < max_retries j")
    case False
    then show ?thesis by (simp add: retry_loop_exit)
  next
    case True
    with pass.prems have "decisive (timeout j) (env rc)" by simp
    then obtain st fs1 evs1 where a: "attempt j (env rc) rc fs = Some (st, fs1, evs1)"
      using attempt_decides by blast
    show ?thesis
    proof (cases st)
      case Returned
      with True a show ?thesis by (simp add: retry_loop_returned)
    next
      case (Reraised r)
      with True a show ?thesis by (simp add: retry_loop_reraised)
    next
      case Continue
      have later: "\<forall>k. rc + 1 \<le> k \<and> k < max_retries j \<longrightarrow> decisive (timeout j) (env k)"
        using pass.prems by simp
      from a Continue have "attempt j (env rc) rc fs = Some (Continue, fs1, evs1)" by simp
      from pass.IH [OF True this later]
      obtain res fs2 evs2 where "retry_loop j env (rc + 1) fs1 = Some (res, fs2, evs2)" by blast
      with True a Continue show ?thesis by (simp add: retry_loop_continue)
    qed
  qed
qed

lemma retry_loop_attempts:
  "retry_loop j env rc fs = Some (res, fs', evs)
   \<Longrightarrow> attempts evs = length (backoffs evs) + (if rc < max_retries j then 1 else 0)"
proof (induction rc fs arbitrary: res fs' evs rule: retry_loop_induct [of j env])
  case (pass rc fs)
  from pass.prems show ?case
  proof (cases rule: retry_loop_cases)
    case exit
    then show ?thesis by (simp add: attempts_def)
  next
    case returned
    then show ?thesis using attempt_log(1,2) [OF returned(2)] by simp
  next
    case (reraised r)
    then show ?thesis using attempt_log(1,2) [OF reraised(2)] by simp
  next
    case (continue fs1 evs1 evs2)
    have "rc + 1 < max_retries j" using attempt_log(5) [OF continue(2)] by simp
    with pass.IH [OF continue(1,2,3)] continue(1,4) attempt_log(1,2) [OF continue(2)]
    show ?thesis by (simp add: attempts_append backoffs_append)
  qed
qed

lemma attempt_not_returned:
  assumes "attempt j e rc fs = Some (st, fs', evs)" and "st \<noteq> Returned"
  obtains r launched tevs where "try_body j e = Some (Inl r, launched, tevs)"
proof -
  obtain res launched tevs where t: "try_body j e = Some (res, launched, tevs)"
    using assms(1) by (cases "try_body j e") (auto simp: attempt_def)
  show ?thesis
  proof (cases res)
    case (Inl r)
    with t that show ?thesis by blast
  next
    case (Inr u)
    with t assms show ?thesis by (simp add: attempt_returned)
  qed
qed

lemma retry_loop_failed:
  "retry_loop j env rc fs = Some (Failed r, fs', evs)
   \<Longrightarrow> \<exists>e l t. try_body j (env (max_retries j - 1)) = Some (Inl e, l, t)
                 \<and> r = Retries_exhausted (max_retries j) (Some e)
                 \<and> Report_error (max_retries j) (max_retries j) e \<in> set evs"
proof (induction rc fs arbitrary: fs' evs rule: retry_loop_induct [of j env])
  case (pass rc fs)
  from pass.prems show ?case
  proof (cases rule: retry_loop_cases)
    case exit
    then show ?thesis by simp
  next
    case returned
    then show ?thesis by simp
  next
    case (reraised r')
    from reraised(2) obtain e l t where t: "try_body j (env rc) = Some (Inl e, l, t)"
      by (rule attempt_not_returned) simp
    from reraised(2) have last: "\<not> rc + 1 < max_retries j"
      and r': "r' = Retries_exhausted (max_retries j) (Some e)"
      and evs: "Report_error (rc + 1) (max_retries j) e \<in> set evs"
      by (auto simp: attempt_failed [OF t] split: if_splits)
    from last reraised(1) have "rc = max_retries j - 1" by simp
    with t r' evs reraised(3) show ?thesis by auto
  next
    case (continue fs1 evs1 evs2)
    with pass.IH [OF continue(1,2,3)] show ?thesis by auto
  qed
qed

lemma retry_loop_all_fail:
  assumes "\<forall>k. rc \<le> k \<and> k < max_retries j \<longrightarrow> (\<exists>r l t. try_body j (env k) = Some (Inl r, l, t))"
    and "rc < max_retries j"
  shows "\<exists>c fs' evs. retry_loop j env rc fs
                        = Some (Failed (Retries_exhausted (max_retries j) (Some c)), fs', evs)
           \<and> int (attempts evs) = max_retries j - rc"
  using assms
proof (induction rc fs rule: retry_loop_induct [of j env])
  case (pass rc fs)
  from pass.prems obtain r l t where t: "try_body j (env rc) = Some (Inl r, l, t)" by blast
  note a = attempt_failed [OF t, of rc fs]
  show ?case
  proof (cases "rc + 1 < max_retries j")
    case False
    with a obtain fs1 evs1
      where a': "attempt j (env rc) rc fs
                   = Some (Reraised (Retries_exhausted (max_retries j) (Some r)), fs1, evs1)"
      by simp
    from False pass.prems(2) have "max_retries j - rc = 1" by simp
    with retry_loop_reraised [where env = env, OF pass.prems(2) a'] attempt_log(1) [OF a']
    show ?thesis by simp
  next
    case True
    with a obtain fs1 evs1 where a': "attempt j (env rc) rc fs = Some (Continue, fs1, evs1)" by simp
    have later: "\<forall>k. rc + 1 \<le> k \<and> k < max_retries j
                  \<longrightarrow> (\<exists>r l t. try_body j (env k) = Some (Inl r, l, t))"
      using pass.prems(1) by simp
    from pass.IH [OF pass.prems(2) a' later True] obtain c fs2 evs2
      where r: "retry_loop j env (rc + 1) fs1
                  = Some (Failed (Retries_exhausted (max_retries j) (Some c)), fs2, evs2)"
        and n: "int (attempts evs2) = max_retries j - (rc + 1)" by blast
    from retry_loop_continue [where env = env, OF pass.prems(2) a' r] attempt_log(1) [OF a'] n
    show ?thesis by (simp add: attempts_append)
  qed
qed

section \<open>The grace window and the cleanup\<close>

lemma exited_mono: "exited ex i \<Longrightarrow> i \<le> k \<Longrightarrow> exited ex k"
  by (auto simp: exited_def split: option.splits)

lemma grace_polls_index: "exited ex (snd (grace_polls ex n i)) = exited ex (i + n)"
proof (induction n arbitrary: i)
  case 0
  then show ?case by simp
next
  case (Suc n)
  show ?case
  proof (cases "exited ex i")
    case True
    then have "exited ex (Suc i)" and "exited ex (i + Suc n)" by (auto intro: exited_mono)
    with True show ?thesis by simp
  next
    case False
    obtain polls k where g: "grace_polls ex n (Suc i) = (polls, k)"
      by (cases "grace_polls ex n (Suc i)")
    with Suc.IH [of "Suc i"] have "exited ex k = exited ex (Suc i + n)" by simp
    with False g show ?thesis by simp
  qed
qed

lemma grace_polls_kills: "Sigkill_group \<notin> set (fst (grace_polls ex n i))"
  "Kill \<notin> set (fst (grace_polls ex n i))"
  using grace_polls_events [of ex n i] by auto

lemma stop_process_fallback:
  "os_posix e \<Longrightarrow> killpg_term_raises e \<Longrightarrow> Terminate \<in> set (stop_process e)"
  by (cases "grace_polls (exits_at_poll e) 50 0") (simp add: stop_process_def Let_def)

lemma tevs_plain:
  assumes "try_body j e = Some (res, launched, tevs)"
  shows "set tevs \<subseteq> {Ffprobe, Popen, Report_done}"
  using try_body_events [OF assms] by auto

lemma cleanup_result:
  "(\<not> raises \<longrightarrow> path \<notin> fst (cleanup path raises fs1))
   \<and> (Log_remove_failed \<in> set (snd (cleanup path raises fs1)))
       = (raises \<and> path \<in> fst (cleanup path raises fs1))
   \<and> fst (cleanup path raises fs1) - {path} = fs1 - {path}"
  by (auto simp: cleanup_def)

lemma retry_loop_failed_fs:
  "retry_loop j env rc fs = Some (Failed r, fs', evs)
   \<Longrightarrow> \<not> remove_raises (env (max_retries j - 1)) \<Longrightarrow> output_video_path j \<notin> fs'"
proof (induction rc fs arbitrary: fs' evs rule: retry_loop_induct [of j env])
  case (pass rc fs)
  from pass.prems(1) show ?case
  proof (cases rule: retry_loop_cases)
    case exit
    then show ?thesis by simp
  next
    case returned
    then show ?thesis by simp
  next
    case (reraised r')
    from reraised(2) obtain e l t where t: "try_body j (env rc) = Some (Inl e, l, t)"
      by (rule attempt_not_returned) simp
    from reraised(2) have last: "\<not> rc + 1 < max_retries j"
      and fs': "fs' = fst (cleanup (output_video_path j) (remove_raises (env rc))
                  (if l \<and> writes_output (env rc) then insert (output_video_path j) fs else fs))"
      by (auto simp: attempt_failed [OF t] split: if_splits)
    from last reraised(1) have "rc = max_retries j - 1" by simp
    with pass.prems(2) fs' cleanup_result [of "remove_raises (env rc)" "output_video_path j"]
    show ?thesis by simp
  next
    case (continue fs1 evs1 evs2)
    from pass.IH [OF continue(1,2,3) pass.prems(2)] show ?thesis .
  qed
qed

lemma stop_process_complete:
  assumes "\<not> terminate_raises e" and "\<not> kill_raises e"
  shows "(Sigterm_group \<in> set (stop_process e) \<or> Terminate \<in> set (stop_process e))
         \<and> Poll \<in> set (stop_process e) \<and> Wait \<in> set (stop_process e)
         \<and> ((Sigkill_group \<in> set (stop_process e) \<or> Kill \<in> set (stop_process e))
              = (\<not> exited (exits_at_poll e) 50))"
proof -
  obtain polls i where g: "grace_polls (exits_at_poll e) 50 0 = (polls, i)"
    by (cases "grace_polls (exits_at_poll e) 50 0")
  from grace_polls_index [of "exits_at_poll e" 50 0] g
  have i: "exited (exits_at_poll e) i = exited (exits_at_poll e) 50" by simp
  from grace_polls_kills [of "exits_at_poll e" 50 0] g
  have k: "Sigkill_group \<notin> set polls" "Kill \<notin> set polls" by simp_all
  define sig where "sig = (if os_posix e
        then (if killpg_term_raises e then [Sigterm_group, Terminate] else [Sigterm_group])
        else [Terminate])"
  have sig: "Sigterm_group \<in> set sig \<or> Terminate \<in> set sig"
    "Sigkill_group \<notin> set sig" "Kill \<notin> set sig"
    by (simp_all add: sig_def)
  have w: "Wait \<in> set (wait_step e)" "Sigkill_group \<notin> set (wait_step e)" "Kill \<notin> set (wait_step e)"
    by (simp_all add: wait_step_def)
  have sp: "stop_process e = sig @ polls @ [Poll]
              @ (if exited (exits_at_poll e) 50 then []
                 else [if os_posix e then Sigkill_group else Kill]) @ wait_step e"
    using assms g i by (simp add: stop_process_def Let_def sig_def)
  show ?thesis
  proof (cases "exited (exits_at_poll e) 50")
    case True
    with sp have "set (stop_process e) = set sig \<union> set polls \<union> {Poll} \<union> set (wait_step e)"
      by auto
    with sig w k True show ?thesis by auto
  next
    case False
    with sp have "set (stop_process e) = set sig \<union> set polls
        \<union> {Poll, if os_posix e then Sigkill_group else Kill} \<union> set (wait_step e)"
      by auto
    with sig w k False show ?thesis by auto
  qed
qed

lemma stop_process_unsignalled:
  assumes "terminate_raises e" and "\<not> os_posix e \<or> killpg_term_raises e"
  shows "Poll \<notin> set (stop_process e) \<and> Wait \<notin> set (stop_process e)"
  using assms by (cases "grace_polls (exits_at_poll e) 50 0") (auto simp: stop_process_def Let_def)

lemma stop_process_kill_raises:
  assumes "\<not> terminate_raises e" and "kill_raises e" and "\<not> exited (exits_at_poll e) 50"
  shows "Wait \<notin> set (stop_process e)"
proof -
  obtain polls i where g: "grace_polls (exits_at_poll e) 50 0 = (polls, i)"
    by (cases "grace_polls (exits_at_poll e) 50 0")
  from grace_polls_index [of "exits_at_poll e" 50 0] g
  have i: "exited (exits_at_poll e) i = exited (exits_at_poll e) 50" by simp
  from grace_polls_events [of "exits_at_poll e" 50 0] g have p: "Wait \<notin> set polls" by auto
  define sig where "sig = (if os_posix e
        then (if killpg_term_raises e then [Sigterm_group, Terminate] else [Sigterm_group])
        else [Terminate])"
  have sig: "Wait \<notin> set sig" by (simp add: sig_def)
  have "stop_process e = sig @ polls @ [Poll, if os_posix e then Sigkill_group else Kill]
          @ [Log_terminate_error]"
    using assms g i by (simp add: stop_process_def Let_def sig_def)
  with sig p show ?thesis by auto
qed


section \<open>Stall detection\<close>

lemma py_int_240: "py_int (strip ''240\<newline>'') = Some 240"
  by code_simp

lemma parse_frame_none: "parse_frame ''Press [q] to stop'' = None" "parse_frame '''' = None"
  by code_simp+

text \<open>
  C10. An attempt whose process is alive and prints no line holding a frame count is ended
  as stalled at the first pass of the monitor loop that comes more than 30 seconds after
  the start of the loop, the hard timeout not having passed: the last-progress clock
  starts at the start time and the count 0 equals the recorded count 0.
\<close>

theorem silent_process_stalls:
  assumes "probe_stdout e = Some out" and "py_int (strip out) = Some tf" and "popen_ok e"
    and "ticks e = pre @ t # post"
    and "\<forall>u\<in>set pre. poll u = None \<and> now u - start_time e \<le> 30
           \<and> now u - start_time e \<le> timeout j \<and> parse_frame (line u) = None"
    and "poll t = None" and "now t - start_time e > 30" and "now t - start_time e \<le> timeout j"
  shows "monitor (timeout j) tf (start_time e) (initial_state (start_time e)) (ticks e)
           = Some (Raised Stalled, now t)
         \<and> try_body j e = Some (Inl Stalled, True, [Ffprobe, Popen])"
proof -
  let ?s = "initial_state (start_time e)"
  have "\<forall>u\<in>set pre. quiet (timeout j) (start_time e) u \<and> now u - last_progress_time ?s \<le> 30"
    using assms(5) by (simp add: quiet_def initial_state_def)
  then have "monitor (timeout j) tf (start_time e) ?s (pre @ t # post)
           = monitor (timeout j) tf (start_time e) ?s (t # post)"
    by (rule before_window)
  also have "\<dots> = Some (Raised Stalled, now t)"
    using assms(6,7,8) by (simp add: initial_state_def)
  finally have m: "monitor (timeout j) tf (start_time e) ?s (ticks e) = Some (Raised Stalled, now t)"
    using assms(4) by simp
  then show ?thesis using assms(1,2,3) by (simp add: try_body_def)
qed

theorem silent_process_stalls_witness:
  "monitor (timeout sample_job) 240 (start_time silent_env) (initial_state (start_time silent_env))
     (ticks silent_env) = Some (Raised Stalled, 31)
   \<and> try_body sample_job silent_env = Some (Inl Stalled, True, [Ffprobe, Popen])"
proof -
  have h1: "probe_stdout silent_env = Some ''240\<newline>''" by (simp add: silent_env_def ok_env_def)
  have h3: "popen_ok silent_env" by (simp add: silent_env_def ok_env_def)
  have h4: "ticks silent_env = [\<lparr>now = 10, poll = None, line = ''Press [q] to stop''\<rparr>,
      \<lparr>now = 20, poll = None, line = ''''\<rparr>] @ \<lparr>now = 31, poll = None, line = ''''\<rparr> # []"
    by (simp add: silent_env_def ok_env_def)
  have h5: "\<forall>u\<in>set [\<lparr>now = 10, poll = None, line = ''Press [q] to stop''\<rparr>,
      \<lparr>now = 20, poll = None, line = ''''\<rparr>]. poll u = None \<and> now u - start_time silent_env \<le> 30
           \<and> now u - start_time silent_env \<le> timeout sample_job \<and> parse_frame (line u) = None"
    using parse_frame_none by (simp add: silent_env_def ok_env_def sample_job_def)
  have h6: "poll \<lparr>now = 31, poll = None, line = ''''\<rparr> = None" by simp
  have h7: "now \<lparr>now = 31, poll = None, line = ''''\<rparr> - start_time silent_env > 30"
    by (simp add: silent_env_def ok_env_def)
  have h8: "now \<lparr>now = 31, poll = None, line = ''''\<rparr> - start_time silent_env \<le> timeout sample_job"
    by (simp add: silent_env_def ok_env_def sample_job_def)
  show ?thesis using silent_process_stalls [OF h1 py_int_240 h3 h4 h5 h6 h7 h8] by simp
qed

text \<open>
  C2. The stall check does not do what the claim, the comments of lines 131 to 133 and
  the message of line 135 say. With polls one second apart, a process reads frame 100 at
  second 1 and is silent from then on: the pass at second 32 finds the window passed but the
  count (100) different from the recorded one (0), which was not updated when the line was
  read, so it only records the count and starts the window again; after the passes up to
  second 32 the loop is still running, and the stall is raised at second 63, which is 62
  seconds after the last advance. And a process that prints the same count once a second
  resets the last-progress time at every line: after two minutes no stall has been raised.
\<close>

theorem stall_check_misses_the_window:
  "monitor 3600 240 0 (initial_state 0) stalling_ticks = Some (Raised Stalled, 63)
   \<and> monitor 3600 240 0 (initial_state 0) (take 32 stalling_ticks) = None
   \<and> monitor 3600 240 0 (initial_state 0) repeating_ticks = None"
  by code_simp

text \<open>
  What the check does give for a process that falls silent: from a state of the monitor
  loop, let the passes that follow be quiet, at most \<open>d\<close> seconds apart, and go on beyond
  60 + \<open>d\<close> seconds after the last progress time. Then the loop ends with the stall
  failure no later than 30 + \<open>d\<close> seconds after that time when the count equals the
  recorded one, and no later than 2 * (30 + \<open>d\<close>) seconds after it otherwise.
\<close>

lemma stall_within_two_windows:
  assumes "paced d (last_progress_time s) us"
    and "\<forall>u\<in>set us. quiet tmo t0 u"
    and "\<exists>u\<in>set us. now u > last_progress_time s + 60 + d"
  shows "\<exists>T. monitor tmo tf t0 s us = Some (Raised Stalled, T)
           \<and> last_progress_time s + 30 < T
           \<and> T \<le> last_progress_time s
                   + (if current_frame s = last_frame s then 30 + d else 2 * (30 + d))"
  using assms by (intro two_windows [of d "last_progress_time s"]) simp_all

section \<open>The frame-count query\<close>

text \<open>
  C1 as stated fails. The frame-count query prints \<^verbatim>\<open>N/A\<close> and the tool itself would
  leave with status 0 at once. The conversion to an integer raises inside the \<^verbatim>\<open>try\<close>,
  so each attempt ends before the tool is started (no \<open>Popen\<close> in the log), is reported
  and counted as a failed attempt, and the job fails after three of them.
\<close>

theorem metadata_failure_counterexample:
  "add_watermark_to_video sample_job (always na_env) {} =
     Some (Failed (Retries_exhausted 3 (Some Total_not_int)), {},
       [Ffprobe, Report_error 1 3 Total_not_int, Exists_check, Backoff 5,
        Ffprobe, Report_error 2 3 Total_not_int, Exists_check, Backoff 10,
        Ffprobe, Report_error 3 3 Total_not_int, Exists_check])"
  by code_simp

text \<open>
  C1 amended. When the frame-count query raises, or its output is not an integer, the
  attempt fails at once: the tool is not started, the failure is reported with the number
  of the attempt, the cleanup of the output file runs, and the retry loop goes on as after
  any failed attempt: it waits 5 seconds times the number of the attempt and continues, or
  raises the final exception when the bound is reached. The attempt counts as one attempt.
\<close>

theorem metadata_failure_fails_attempt:
  assumes "probe_stdout e = None \<or> (\<exists>out. probe_stdout e = Some out \<and> py_int (strip out) = None)"
  shows "\<exists>r fs' evs.
           try_body j e = Some (Inl r, False, [Ffprobe])
           \<and> r = (if probe_stdout e = None then Probe_failed else Total_not_int)
           \<and> attempt j e rc fs =
               Some (if rc + 1 < max_retries j then Continue
                     else Reraised (Retries_exhausted (max_retries j) (Some r)), fs', evs)
           \<and> Popen \<notin> set evs
           \<and> Report_error (rc + 1) (max_retries j) r \<in> set evs
           \<and> Exists_check \<in> set evs
           \<and> backoffs evs = (if rc + 1 < max_retries j then [5 * (rc + 1)] else [])
           \<and> attempts evs = 1"
proof -
  let ?r = "if probe_stdout e = None then Probe_failed else Total_not_int"
  let ?st = "if rc + 1 < max_retries j then Continue
             else Reraised (Retries_exhausted (max_retries j) (Some ?r))"
  let ?evs = "[Ffprobe] @ [Report_error (rc + 1) (max_retries j) ?r]
             @ handler_events j e False fs
             @ (if rc + 1 < max_retries j then [Backoff (5 * (rc + 1))] else [])"
  have t: "try_body j e = Some (Inl ?r, False, [Ffprobe])"
    using assms by (auto simp: try_body_def)
  have a: "attempt j e rc fs
             = Some (?st, fst (cleanup (output_video_path j) (remove_raises e) fs), ?evs)"
    using attempt_failed [OF t, of rc fs] by simp
  have 1: "Popen \<notin> set ?evs"
    using handler_events_plain [of j e False fs] by auto
  have 2: "Report_error (rc + 1) (max_retries j) ?r \<in> set ?evs" by simp
  have 3: "Exists_check \<in> set ?evs"
    using cleanup_checks [of "output_video_path j" "remove_raises e" fs]
    by (simp add: handler_events_def)
  have 4: "backoffs ?evs = (if rc + 1 < max_retries j then [5 * (rc + 1)] else [])"
    using attempt_log(2) [OF a] by (simp split: if_splits)
  have 5: "attempts ?evs = 1" by (rule attempt_log(1) [OF a])
  from t a 1 2 3 4 5 show ?thesis by blast
qed

theorem metadata_failure_fails_attempt_witness:
  "\<exists>r fs' evs.
     try_body sample_job na_env = Some (Inl r, False, [Ffprobe])
     \<and> r = (if probe_stdout na_env = None then Probe_failed else Total_not_int)
     \<and> attempt sample_job na_env 0 {} =
         Some (if 0 + 1 < max_retries sample_job then Continue
               else Reraised (Retries_exhausted (max_retries sample_job) (Some r)), fs', evs)
     \<and> Popen \<notin> set evs
     \<and> Report_error (0 + 1) (max_retries sample_job) r \<in> set evs
     \<and> Exists_check \<in> set evs
     \<and> backoffs evs = (if 0 + 1 < max_retries sample_job then [5 * (0 + 1)] else [])
     \<and> attempts evs = 1"
proof -
  have "probe_stdout na_env = Some ''N/A''" by (simp add: na_env_def ok_env_def)
  moreover have "py_int (strip ''N/A'') = None" by code_simp
  ultimately have h: "probe_stdout na_env = None
      \<or> (\<exists>out. probe_stdout na_env = Some out \<and> py_int (strip out) = None)" by simp
  show ?thesis by (rule metadata_failure_fails_attempt [OF h])
qed

section \<open>Exit status of the batch\<close>

text \<open>
  C3 as stated fails. A folder holds one video whose tool leaves with status 1 at every
  attempt, and one file that is no video. The job fails after three attempts, the failure is
  printed, and the script ends with exit status 0.
\<close>

theorem exit_status_counterexample:
  "main True ''in'' ''out'' ''TikTok'' failing_folder {}
   = Some (0, [(''a.mp4'', Retries_exhausted 3 None)])"
  by code_simp

text \<open>
  C3 amended. For every batch run that gets through its jobs, that is whenever
  \<^verbatim>\<open>process_videos_in_folder\<close> returns, the script exits with status 0, whether all
  jobs succeeded or some failed after exhausting their retries: a failed job is only
  printed.
\<close>

theorem exit_status_ignores_jobs:
  assumes "process_videos_in_folder input_folder output_folder text listing fs
             = Some (Batch_returned errors fs1)"
  shows "main True input_folder output_folder text listing fs = Some (0, errors)"
  using assms by (simp add: main_def)

theorem exit_status_ignores_jobs_witness:
  "main True ''in'' ''out'' ''TikTok'' failing_folder {}
     = Some (0, [(''a.mp4'', Retries_exhausted 3 None)])"
proof -
  have h: "process_videos_in_folder ''in'' ''out'' ''TikTok'' failing_folder {}
             = Some (Batch_returned [(''a.mp4'', Retries_exhausted 3 None)] {})"
    by code_simp
  show ?thesis by (rule exit_status_ignores_jobs [OF h])
qed

text \<open>The other ways the script ends: the tool is missing, or preparing the folders raises.\<close>

lemma exit_status_one:
  "main False input_folder output_folder text listing fs = Some (1, [])"
  "main True input_folder output_folder text no_listing fs = Some (1, [])"
  by (simp_all add: main_def process_videos_in_folder_def no_listing_def)

section \<open>Outcome of a job\<close>

text \<open>
  C4. Let the observations of every attempt of a job be decisive (some pass sees the hard
  timeout passed or the process gone). Then the job ends with one result, which is
  \<open>Success\<close> or \<open>Failed\<close>; each attempt in its log is reported once, as done or as an
  error; and the done report occurs exactly when the job succeeds after an attempt. For a
  single pass of the retry loop that ends, exactly one of the two reports is made, the done
  report if and only if the pass returns.
\<close>

theorem one_outcome_per_job:
  assumes "\<forall>k. 0 \<le> k \<and> k < max_retries j \<longrightarrow> decisive (timeout j) (env k)"
    and "attempt j e rc fs0 = Some (st, fs1, evs1)"
  shows "(\<exists>res fs' evs.
            add_watermark_to_video j env fs = Some (res, fs', evs)
            \<and> (res = Success \<or> (\<exists>c. res = Failed (Retries_exhausted (max_retries j) (Some c))))
            \<and> length (filter is_error_report evs) + length (filter (\<lambda>ev. ev = Report_done) evs)
                = attempts evs
            \<and> length (filter (\<lambda>ev. ev = Report_done) evs)
                = (if res = Success \<and> 0 < max_retries j then 1 else 0))
         \<and> length (filter is_error_report evs1) + length (filter (\<lambda>ev. ev = Report_done) evs1) = 1
         \<and> (length (filter (\<lambda>ev. ev = Report_done) evs1) = 1) = (st = Returned)"
proof -
  from retry_loop_decides [of 0 j env fs] assms(1)
  obtain res fs' evs where r: "retry_loop j env 0 fs = Some (res, fs', evs)" by blast
  from retry_loop_reports [OF r] r have "\<exists>res fs' evs.
            add_watermark_to_video j env fs = Some (res, fs', evs)
            \<and> (res = Success \<or> (\<exists>c. res = Failed (Retries_exhausted (max_retries j) (Some c))))
            \<and> length (filter is_error_report evs) + length (filter (\<lambda>ev. ev = Report_done) evs)
                = attempts evs
            \<and> length (filter (\<lambda>ev. ev = Report_done) evs)
                = (if res = Success \<and> 0 < max_retries j then 1 else 0)"
    by (simp add: add_watermark_to_video_def)
  with attempt_log(3,4) [OF assms(2)] show ?thesis by simp
qed

theorem one_outcome_per_job_witness:
  "(\<exists>res fs' evs.
      add_watermark_to_video sample_job fail_twice_then_ok {} = Some (res, fs', evs)
      \<and> (res = Success
           \<or> (\<exists>c. res = Failed (Retries_exhausted (max_retries sample_job) (Some c))))
      \<and> length (filter is_error_report evs) + length (filter (\<lambda>ev. ev = Report_done) evs)
          = attempts evs
      \<and> length (filter (\<lambda>ev. ev = Report_done) evs)
          = (if res = Success \<and> 0 < max_retries sample_job then 1 else 0))
   \<and> length (filter is_error_report [Ffprobe, Popen, Report_done])
       + length (filter (\<lambda>ev. ev = Report_done) [Ffprobe, Popen, Report_done]) = 1
   \<and> (length (filter (\<lambda>ev. ev = Report_done) [Ffprobe, Popen, Report_done]) = 1)
       = (Returned = Returned)"
proof -
  have h1: "\<forall>k. 0 \<le> k \<and> k < max_retries sample_job
              \<longrightarrow> decisive (timeout sample_job) (fail_twice_then_ok k)"
    by (simp add: decisive_def fail_twice_then_ok_def exit1_env_def ok_env_def)
  have h2: "attempt sample_job ok_env 0 {} = Some (Returned, {''out/a.mp4''}, [Ffprobe, Popen, Report_done])"
    by code_simp
  show ?thesis by (rule one_outcome_per_job [OF h1 h2])
qed


section \<open>Reason of a failed job\<close>

text \<open>
  C5. A job that exhausts its attempts fails with the exception of line 208, which is
  raised while the exception of the last attempt, the one numbered \<open>max_retries\<close>, is
  being handled: the failure reason of that attempt is the context the final exception
  carries, and it is the reason in the last error report.
\<close>

theorem failed_job_carries_last_reason:
  assumes "add_watermark_to_video j env fs = Some (Failed r, fs', evs)"
  shows "\<exists>e l t. try_body j (env (max_retries j - 1)) = Some (Inl e, l, t)
                 \<and> r = Retries_exhausted (max_retries j) (Some e)
                 \<and> Report_error (max_retries j) (max_retries j) e \<in> set evs"
  using assms unfolding add_watermark_to_video_def by (rule retry_loop_failed)

theorem failed_job_carries_last_reason_witness:
  "\<exists>e l t. try_body sample_job (fail_then_stall (max_retries sample_job - 1)) = Some (Inl e, l, t)
       \<and> Retries_exhausted 3 (Some Stalled) = Retries_exhausted (max_retries sample_job) (Some e)
       \<and> Report_error (max_retries sample_job) (max_retries sample_job) e
           \<in> set [Ffprobe, Popen, Report_error 1 3 (Exit_nonzero 1 []), Sigterm_group,
                  Poll, Poll, Wait, Log_terminated, Exists_check, Remove, Log_removed,
                  Backoff 5, Ffprobe, Popen, Report_error 2 3 (Exit_nonzero 1 []),
                  Sigterm_group, Poll, Poll, Wait, Log_terminated, Exists_check, Remove,
                  Log_removed, Backoff 10, Ffprobe, Popen, Report_error 3 3 Stalled,
                  Sigterm_group, Poll, Poll, Wait, Log_terminated, Exists_check, Remove,
                  Log_removed]"
proof -
  have h: "add_watermark_to_video sample_job fail_then_stall {} =
     Some (Failed (Retries_exhausted 3 (Some Stalled)), {},
       [Ffprobe, Popen, Report_error 1 3 (Exit_nonzero 1 []), Sigterm_group,
        Poll, Poll, Wait, Log_terminated, Exists_check, Remove, Log_removed,
        Backoff 5, Ffprobe, Popen, Report_error 2 3 (Exit_nonzero 1 []),
        Sigterm_group, Poll, Poll, Wait, Log_terminated, Exists_check, Remove,
        Log_removed, Backoff 10, Ffprobe, Popen, Report_error 3 3 Stalled,
        Sigterm_group, Poll, Poll, Wait, Log_terminated, Exists_check, Remove,
        Log_removed])"
    by code_simp
  show ?thesis by (rule failed_job_carries_last_reason [OF h])
qed

section \<open>Backoff\<close>

text \<open>
  C8. In the log of a job that ends, the waits before the retries are 5, 10, 15, \<dots>
  seconds in this order: the wait before retry \<open>k\<close> is \<open>5 * k\<close>. So they grow strictly, and
  every attempt after the first comes after one wait.
\<close>

theorem backoff_schedule:
  assumes "add_watermark_to_video j env fs = Some (res, fs', evs)"
  shows "backoffs evs = map (\<lambda>k. 5 * k) [1 .. int (length (backoffs evs))]
         \<and> sorted_wrt (<) (backoffs evs)
         \<and> attempts evs = length (backoffs evs) + (if 0 < max_retries j then 1 else 0)"
proof -
  from assms have r: "retry_loop j env 0 fs = Some (res, fs', evs)"
    by (simp add: add_watermark_to_video_def)
  have b: "backoffs evs = map (\<lambda>k. 5 * k) [1 .. int (length (backoffs evs))]"
    using retry_loop_backoffs [OF r] by simp
  have "sorted_wrt (<) (map (\<lambda>k. 5 * k) [1 .. int (length (backoffs evs))])"
    by (simp add: sorted_wrt_map sorted_wrt_mono_rel [OF _ sorted_wrt_upto])
  with b have "sorted_wrt (<) (backoffs evs)" by simp
  with b retry_loop_attempts [OF r] show ?thesis by simp
qed

theorem backoff_schedule_witness:
  "backoffs [Ffprobe, Report_error 1 3 Total_not_int, Exists_check, Backoff 5,
             Ffprobe, Report_error 2 3 Total_not_int, Exists_check, Backoff 10,
             Ffprobe, Report_error 3 3 Total_not_int, Exists_check] = [5, 10]"
proof -
  let ?evs = "[Ffprobe, Report_error 1 3 Total_not_int, Exists_check, Backoff 5,
             Ffprobe, Report_error 2 3 Total_not_int, Exists_check, Backoff 10,
             Ffprobe, Report_error 3 3 Total_not_int, Exists_check]"
  have h: "add_watermark_to_video sample_job (always na_env) {} =
     Some (Failed (Retries_exhausted 3 (Some Total_not_int)), {}, ?evs)"
    by code_simp
  have n: "int (length (backoffs ?evs)) = 2" by simp
  have "backoffs ?evs = map (\<lambda>k. 5 * k) [1 .. int (length (backoffs ?evs))]"
    using backoff_schedule [OF h] by blast
  also have "\<dots> = [5, 10]" unfolding n by (simp add: upto_rec1)
  finally show ?thesis .
qed

section \<open>Number of attempts\<close>

lemma parse_frame_busy: "parse_frame (line (busy k)) = Some 100"
proof -
  have "parse_frame ''frame=  100 fps= 25 q=28.0'' = Some 100" by code_simp
  then show ?thesis by (simp add: busy_def)
qed

lemma busy_passes:
  assumes "real n - t0 \<le> tmo" and "\<not> division_raises 100 tf"
    and "last_progress_time s = real m" and "m \<le> n"
  shows "\<exists>s'. monitor tmo tf t0 s (map busy [Suc m..<Suc n] @ rest) = monitor tmo tf t0 s' rest"
  using assms(3,4)
proof (induction "n - m" arbitrary: m s)
  case 0
  then show ?case by auto
next
  case (Suc d)
  then have less: "m < n" by simp
  let ?s = "s\<lparr>current_frame := 100, last_progress_time := real (Suc m)\<rparr>"
  have step: "monitor tmo tf t0 s (busy (Suc m) # us) = monitor tmo tf t0 ?s us" for us
  proof -
    have "now (busy (Suc m)) - t0 \<le> tmo" using assms(1) less by (simp add: busy_def)
    moreover have "\<not> now (busy (Suc m)) - last_progress_time s > 30"
      using Suc.prems(1) by (simp add: busy_def)
    moreover have "poll (busy (Suc m)) = None" by (simp add: busy_def)
    moreover have "now (busy (Suc m)) = real (Suc m)" by (simp add: busy_def)
    ultimately show ?thesis
      using assms(2) by (simp add: stall_window_def read_progress_def parse_frame_busy)
  qed
  have "d = n - Suc m" using Suc.hyps(2) by simp
  moreover have "last_progress_time ?s = real (Suc m)" by simp
  moreover have "Suc m \<le> n" using less by simp
  ultimately obtain s' where
    "monitor tmo tf t0 ?s (map busy [Suc (Suc m)..<Suc n] @ rest) = monitor tmo tf t0 s' rest"
    using Suc.hyps(1) by blast
  moreover have "[Suc m..<Suc n] = Suc m # [Suc (Suc m)..<Suc n]"
    using less by (simp add: upt_conv_Cons)
  ultimately show ?case using step by auto
qed

lemma late_attempt: "try_body sample_job late_env = Some (Inl Hard_timeout, True, [Ffprobe, Popen])"
proof -
  let ?last = "\<lparr>now = 3601, poll = Some 0, line = ''''\<rparr>"
  have d: "\<not> division_raises 100 240" by (simp add: division_raises_def)
  have "\<exists>s'. monitor 3600 240 0 (initial_state 0) (map busy [Suc 0..<Suc 3600] @ [?last])
              = monitor 3600 240 0 s' [?last]"
    by (rule busy_passes) (simp_all add: d initial_state_def)
  then obtain s' where "monitor 3600 240 0 (initial_state 0) (map busy [Suc 0..<Suc 3600] @ [?last])
              = monitor 3600 240 0 s' [?last]" ..
  also have "\<dots> = Some (Raised Hard_timeout, 3601)" by simp
  finally have "monitor 3600 240 0 (initial_state 0) hour_ticks = Some (Raised Hard_timeout, 3601)"
    unfolding hour_ticks_def .
  then show ?thesis
    by (simp add: try_body_def late_env_def ok_env_def sample_job_def py_int_240)
qed

text \<open>
  C9 as stated fails, in two ways. The tool would leave with status 0 at once, but the
  frame-count query prints \<^verbatim>\<open>N/A\<close>: the tool is never started and the job fails after
  three attempts. And the tool is started, prints a progress line every second for an
  hour and has left with status 0 when the pass at second 3601 runs: that pass checks the
  hard timeout before it looks at the process, so the first attempt fails with the timeout
  and the retry loop goes on.
\<close>

theorem status_zero_counterexample:
  "map_option fst (add_watermark_to_video sample_job (always na_env) {})
     = Some (Failed (Retries_exhausted 3 (Some Total_not_int)))
   \<and> poll (last (ticks na_env)) = Some 0
   \<and> try_body sample_job late_env = Some (Inl Hard_timeout, True, [Ffprobe, Popen])
   \<and> poll (last (ticks late_env)) = Some 0
   \<and> map_option fst (attempt sample_job late_env 0 {}) = Some Continue"
proof -
  have 1: "map_option fst (add_watermark_to_video sample_job (always na_env) {})
     = Some (Failed (Retries_exhausted 3 (Some Total_not_int)))
   \<and> poll (last (ticks na_env)) = Some 0"
    by code_simp
  have 2: "poll (last (ticks late_env)) = Some 0"
    by (simp add: late_env_def hour_ticks_def)
  have 3: "map_option fst (attempt sample_job late_env 0 {}) = Some Continue"
    using attempt_failed [OF late_attempt, of 0 "{}"] by (simp add: sample_job_def)
  from 1 2 3 late_attempt show ?thesis by blast
qed

text \<open>
  C9 amended. For a job that allows at least one attempt (every job of the batch allows
  three): if in the first attempt the frame count is read, the tool is started and the
  monitor loop sees it leave with status 0, the job succeeds after exactly one attempt; if
  every attempt up to the bound fails, the job makes exactly \<open>max_retries\<close> attempts and
  then fails.
\<close>

theorem attempts_made:
  "(0 < max_retries j \<and> probe_stdout (env1 0) = Some out \<and> py_int (strip out) = Some tf
      \<and> popen_ok (env1 0)
      \<and> monitor (timeout j) tf (start_time (env1 0)) (initial_state (start_time (env1 0)))
           (ticks (env1 0)) = Some (Exited 0, t)
    \<longrightarrow> (\<exists>fs' evs. add_watermark_to_video j env1 fs = Some (Success, fs', evs)
            \<and> attempts evs = 1))
   \<and> (0 < max_retries j
        \<and> (\<forall>k. 0 \<le> k \<and> k < max_retries j
               \<longrightarrow> (\<exists>r l evs. try_body j (env2 k) = Some (Inl r, l, evs)))
    \<longrightarrow> (\<exists>c fs' evs. add_watermark_to_video j env2 fs
                         = Some (Failed (Retries_exhausted (max_retries j) (Some c)), fs', evs)
            \<and> int (attempts evs) = max_retries j))"
proof (intro conjI impI)
  assume a: "0 < max_retries j \<and> probe_stdout (env1 0) = Some out \<and> py_int (strip out) = Some tf
      \<and> popen_ok (env1 0)
      \<and> monitor (timeout j) tf (start_time (env1 0)) (initial_state (start_time (env1 0)))
           (ticks (env1 0)) = Some (Exited 0, t)"
  then have t: "try_body j (env1 0) = Some (Inr (), True, [Ffprobe, Popen, Report_done])"
    by (simp add: try_body_def)
  from a have pos: "0 < max_retries j" by simp
  note r = retry_loop_returned [where env = env1, OF pos attempt_returned [OF t, of 0 fs]]
  then show "\<exists>fs' evs. add_watermark_to_video j env1 fs = Some (Success, fs', evs) \<and> attempts evs = 1"
    by (simp add: add_watermark_to_video_def attempts_def)
next
  assume b: "0 < max_retries j
        \<and> (\<forall>k. 0 \<le> k \<and> k < max_retries j
               \<longrightarrow> (\<exists>r l evs. try_body j (env2 k) = Some (Inl r, l, evs)))"
  then have pos: "0 < max_retries j"
    and all: "\<forall>k. 0 \<le> k \<and> k < max_retries j
               \<longrightarrow> (\<exists>r l evs. try_body j (env2 k) = Some (Inl r, l, evs))" by blast+
  from retry_loop_all_fail [OF all pos, of fs]
  show "\<exists>c fs' evs. add_watermark_to_video j env2 fs
                       = Some (Failed (Retries_exhausted (max_retries j) (Some c)), fs', evs)
          \<and> int (attempts evs) = max_retries j"
    by (simp add: add_watermark_to_video_def)
qed

theorem attempts_made_witness:
  "(\<exists>fs' evs. add_watermark_to_video sample_job (always ok_env) {} = Some (Success, fs', evs)
       \<and> attempts evs = 1)
   \<and> (\<exists>c fs' evs. add_watermark_to_video sample_job (always exit1_env) {}
                      = Some (Failed (Retries_exhausted (max_retries sample_job) (Some c)), fs', evs)
       \<and> int (attempts evs) = max_retries sample_job)"
proof -
  have h0: "0 < max_retries sample_job" by (simp add: sample_job_def)
  have h1: "probe_stdout (always ok_env 0) = Some ''240\<newline>'' \<and> py_int (strip ''240\<newline>'') = Some 240
      \<and> popen_ok (always ok_env 0)
      \<and> monitor (timeout sample_job) 240 (start_time (always ok_env 0))
           (initial_state (start_time (always ok_env 0))) (ticks (always ok_env 0)) = Some (Exited 0, 1)"
    by code_simp
  have t: "try_body sample_job exit1_env = Some (Inl (Exit_nonzero 1 []), True, [Ffprobe, Popen])"
    by code_simp
  have h2: "\<forall>k. 0 \<le> k \<and> k < max_retries sample_job
       \<longrightarrow> (\<exists>r l evs. try_body sample_job (always exit1_env k) = Some (Inl r, l, evs))"
    using t by (auto simp: always_def)
  from attempts_made [where j = sample_job and ?env1.0 = "always ok_env" and out = "''240\<newline>''"
      and tf = 240 and t = 1 and fs = "{}" and ?env2.0 = "always exit1_env"] h0 h1 h2
  show ?thesis by blast
qed

section \<open>Stopping the process\<close>

text \<open>
  C6 as stated fails. The process ignores the termination signal and is still running
  after the fifty polls of the grace window; the kill of its group raises. The handler
  then logs the error and leaves the block: the final wait is not made.
\<close>

theorem wait_skipped_counterexample:
  "stop_process stuck_env =
     Sigterm_group # concat (replicate 50 [Poll, Grace_sleep])
       @ [Poll, Sigkill_group, Log_terminate_error]"
  by code_simp

text \<open>
  C6 amended. After every failed attempt the cleanup of the output file is attempted,
  whatever the termination steps did. For an attempt that has a process: when the signal
  to the process group raises, the process alone is signalled; when neither that signal
  nor the forceful kill raises, the signal, the polls and the final wait are all made, the
  forceful kill exactly when the process has not left within the grace window; when the
  forceful kill is due and raises, the final wait is not made; and when no signal can be
  sent, neither the polls nor the final wait are made.
\<close>

theorem termination_then_cleanup:
  assumes "try_body j e = Some (Inl r, launched, tevs)"
  shows "\<exists>st fs' evs.
           attempt j e rc fs = Some (st, fs', evs) \<and> st \<noteq> Returned
           \<and> Exists_check \<in> set evs
           \<and> (launched \<and> os_posix e \<and> killpg_term_raises e \<longrightarrow> Terminate \<in> set evs)
           \<and> (launched \<and> \<not> terminate_raises e \<and> \<not> kill_raises e \<longrightarrow>
                (Sigterm_group \<in> set evs \<or> Terminate \<in> set evs)
                \<and> Poll \<in> set evs \<and> Wait \<in> set evs
                \<and> ((Sigkill_group \<in> set evs \<or> Kill \<in> set evs)
                     = (\<not> exited (exits_at_poll e) 50)))
           \<and> (launched \<and> \<not> terminate_raises e \<and> kill_raises e
                \<and> \<not> exited (exits_at_poll e) 50 \<longrightarrow> Wait \<notin> set evs)
           \<and> (launched \<and> terminate_raises e \<and> (\<not> os_posix e \<or> killpg_term_raises e) \<longrightarrow>
                Poll \<notin> set evs \<and> Wait \<notin> set evs)"
proof -
  let ?fs1 = "if launched \<and> writes_output e then insert (output_video_path j) fs else fs"
  let ?c = "snd (cleanup (output_video_path j) (remove_raises e) ?fs1)"
  let ?evs = "tevs @ [Report_error (rc + 1) (max_retries j) r]
             @ handler_events j e launched ?fs1
             @ (if rc + 1 < max_retries j then [Backoff (5 * (rc + 1))] else [])"
  note a = attempt_failed [OF assms, of rc fs]
  have c: "Exists_check \<in> set ?c" by (rule cleanup_checks)
  have ck: "Sigkill_group \<notin> set ?c" "Kill \<notin> set ?c" "Poll \<notin> set ?c" "Wait \<notin> set ?c"
    using cleanup_events [of "output_video_path j" "remove_raises e" ?fs1] by auto
  have tk: "Sigkill_group \<notin> set tevs" "Kill \<notin> set tevs" "Poll \<notin> set tevs" "Wait \<notin> set tevs"
    using tevs_plain [OF assms] by auto
  have h: "handler_events j e launched ?fs1 = stop_process e @ ?c" if "launched"
    using that by (simp add: handler_events_def)
  have m: "x \<in> set (stop_process e) \<Longrightarrow> x \<in> set ?evs" if "launched" for x
    unfolding h [OF that] by simp
  have k1: "Sigkill_group \<in> set ?evs \<longleftrightarrow> Sigkill_group \<in> set (stop_process e)" if "launched"
    unfolding h [OF that] using ck(1) tk(1) by simp
  have k2: "Kill \<in> set ?evs \<longleftrightarrow> Kill \<in> set (stop_process e)" if "launched"
    unfolding h [OF that] using ck(2) tk(2) by simp
  have k3: "Poll \<in> set ?evs \<longleftrightarrow> Poll \<in> set (stop_process e)" if "launched"
    unfolding h [OF that] using ck(3) tk(3) by simp
  have k4: "Wait \<in> set ?evs \<longleftrightarrow> Wait \<in> set (stop_process e)" if "launched"
    unfolding h [OF that] using ck(4) tk(4) by simp
  have 1: "Exists_check \<in> set ?evs" using c by (simp add: handler_events_def)
  have 2: "Terminate \<in> set ?evs" if "launched" "os_posix e" "killpg_term_raises e"
    using m [OF that(1)] stop_process_fallback [OF that(2,3)] by blast
  have 3: "(Sigterm_group \<in> set ?evs \<or> Terminate \<in> set ?evs)
           \<and> Poll \<in> set ?evs \<and> Wait \<in> set ?evs
           \<and> ((Sigkill_group \<in> set ?evs \<or> Kill \<in> set ?evs) = (\<not> exited (exits_at_poll e) 50))"
    if "launched" "\<not> terminate_raises e" "\<not> kill_raises e"
  proof -
    note s = stop_process_complete [OF that(2,3)]
    from s have "Sigterm_group \<in> set ?evs \<or> Terminate \<in> set ?evs" using m [OF that(1)] by blast
    moreover from s have "Poll \<in> set ?evs" using m [OF that(1)] by blast
    moreover from s have "Wait \<in> set ?evs" using m [OF that(1)] by blast
    moreover from s have "(Sigkill_group \<in> set ?evs \<or> Kill \<in> set ?evs)
        = (\<not> exited (exits_at_poll e) 50)" unfolding k1 [OF that(1)] k2 [OF that(1)] by blast
    ultimately show ?thesis by blast
  qed
  have 4: "Wait \<notin> set ?evs"
    if "launched" "\<not> terminate_raises e" "kill_raises e" "\<not> exited (exits_at_poll e) 50"
    unfolding k4 [OF that(1)] by (rule stop_process_kill_raises [OF that(2,3,4)])
  have 5: "Poll \<notin> set ?evs \<and> Wait \<notin> set ?evs"
    if "launched" "terminate_raises e" "\<not> os_posix e \<or> killpg_term_raises e"
    unfolding k3 [OF that(1)] k4 [OF that(1)] by (rule stop_process_unsignalled [OF that(2,3)])
  have st: "(if rc + 1 < max_retries j then Continue
             else Reraised (Retries_exhausted (max_retries j) (Some r))) \<noteq> Returned" by simp
  show ?thesis
    apply (rule exI [of _ "if rc + 1 < max_retries j then Continue
             else Reraised (Retries_exhausted (max_retries j) (Some r))"])
    apply (rule exI [of _ "fst (cleanup (output_video_path j) (remove_raises e) ?fs1)"])
    apply (rule exI [of _ ?evs])
    using a st 1 2 3 4 5 apply blast
    done
qed

theorem termination_then_cleanup_witness:
  "(\<exists>st fs' evs.
      attempt sample_job reaped_env 0 {} = Some (st, fs', evs) \<and> st \<noteq> Returned
      \<and> Exists_check \<in> set evs
      \<and> Terminate \<in> set evs
      \<and> (Sigterm_group \<in> set evs \<or> Terminate \<in> set evs)
      \<and> Poll \<in> set evs \<and> Wait \<in> set evs
      \<and> ((Sigkill_group \<in> set evs \<or> Kill \<in> set evs)
           = (\<not> exited (exits_at_poll reaped_env) 50)))
   \<and> (\<exists>st fs' evs.
         attempt sample_job stuck_env 0 {} = Some (st, fs', evs)
         \<and> Exists_check \<in> set evs \<and> Wait \<notin> set evs)
   \<and> (\<exists>st fs' evs.
         attempt sample_job unsignalled_env 0 {} = Some (st, fs', evs)
         \<and> Exists_check \<in> set evs \<and> Poll \<notin> set evs \<and> Wait \<notin> set evs)"
proof -
  have h1: "try_body sample_job reaped_env = Some (Inl (Exit_nonzero 1 []), True, [Ffprobe, Popen])"
    by code_simp
  have e1: "os_posix reaped_env" "killpg_term_raises reaped_env"
    "\<not> terminate_raises reaped_env" "\<not> kill_raises reaped_env"
    by (simp_all add: reaped_env_def exit1_env_def ok_env_def)
  have h2: "try_body sample_job stuck_env = Some (Inl Stalled, True, [Ffprobe, Popen])"
    by code_simp
  have e2: "\<not> terminate_raises stuck_env" "kill_raises stuck_env"
    "\<not> exited (exits_at_poll stuck_env) 50"
    by (simp_all add: stuck_env_def silent_env_def ok_env_def exited_def)
  have h3: "try_body sample_job unsignalled_env = Some (Inl (Exit_nonzero 1 []), True, [Ffprobe, Popen])"
    by code_simp
  have e3: "terminate_raises unsignalled_env" "\<not> os_posix unsignalled_env \<or> killpg_term_raises unsignalled_env"
    by (simp_all add: unsignalled_env_def exit1_env_def ok_env_def)
  from termination_then_cleanup [OF h1, of 0 "{}"] e1
  have a: "\<exists>st fs' evs.
      attempt sample_job reaped_env 0 {} = Some (st, fs', evs) \<and> st \<noteq> Returned
      \<and> Exists_check \<in> set evs
      \<and> Terminate \<in> set evs
      \<and> (Sigterm_group \<in> set evs \<or> Terminate \<in> set evs)
      \<and> Poll \<in> set evs \<and> Wait \<in> set evs
      \<and> ((Sigkill_group \<in> set evs \<or> Kill \<in> set evs)
           = (\<not> exited (exits_at_poll reaped_env) 50))" by blast
  from termination_then_cleanup [OF h2, of 0 "{}"] e2
  have b: "\<exists>st fs' evs.
         attempt sample_job stuck_env 0 {} = Some (st, fs', evs)
         \<and> Exists_check \<in> set evs \<and> Wait \<notin> set evs" by blast
  from termination_then_cleanup [OF h3, of 0 "{}"] e3
  have c: "\<exists>st fs' evs.
         attempt sample_job unsignalled_env 0 {} = Some (st, fs', evs)
         \<and> Exists_check \<in> set evs \<and> Poll \<notin> set evs \<and> Wait \<notin> set evs" by blast
  from a b c show ?thesis by blast
qed

section \<open>Removing the partial output\<close>

text \<open>
  C7 as stated fails. The tool leaves a partial output file and fails with status 1, and
  removing the file raises. The handler logs a warning and goes on: the first pass of the
  retry loop ends with the backoff and the continuation to the next attempt while the file
  is still there.
\<close>

theorem partial_output_left_counterexample:
  "attempt sample_job locked_env 0 {} =
     Some (Continue, {''out/a.mp4''},
       [Ffprobe, Popen, Report_error 1 3 (Exit_nonzero 1 []), Sigterm_group,
        Poll, Poll, Wait, Log_terminated, Exists_check, Remove, Log_remove_failed, Backoff 5])"
  by code_simp

text \<open>
  C7 amended. After a failed attempt the output path is gone before the next attempt or
  the final failure, provided removing the file does not raise; no other path is touched.
  A failure of the removal is logged exactly when the file is there and removing it
  raises, so a file that is absent is no error. A job that fails leaves no file at its
  output path when the removal after its last attempt does not raise.
\<close>

theorem partial_output_removed:
  assumes "attempt j e rc fs = Some (st, fs', evs)" and "st \<noteq> Returned"
  shows "(\<not> remove_raises e \<longrightarrow> output_video_path j \<notin> fs')
         \<and> (Log_remove_failed \<in> set evs) = (remove_raises e \<and> output_video_path j \<in> fs')
         \<and> fs' - {output_video_path j} = fs - {output_video_path j}
         \<and> (add_watermark_to_video j env fsa = Some (Failed r, fsb, evsb)
              \<and> \<not> remove_raises (env (max_retries j - 1)) \<longrightarrow> output_video_path j \<notin> fsb)"
proof -
  from assms obtain r' launched tevs where t: "try_body j e = Some (Inl r', launched, tevs)"
    by (rule attempt_not_returned)
  let ?fs1 = "if launched \<and> writes_output e then insert (output_video_path j) fs else fs"
  let ?c = "cleanup (output_video_path j) (remove_raises e) ?fs1"
  from assms(1) have fs': "fs' = fst ?c"
    and evs: "evs = tevs @ [Report_error (rc + 1) (max_retries j) r']
                @ handler_events j e launched ?fs1
                @ (if rc + 1 < max_retries j then [Backoff (5 * (rc + 1))] else [])"
    by (simp_all add: attempt_failed [OF t])
  note c = cleanup_result [of "remove_raises e" "output_video_path j" ?fs1]
  have "Log_remove_failed \<notin> set tevs" using tevs_plain [OF t] by auto
  moreover have "Log_remove_failed \<notin> set (stop_process e)" using stop_process_events [of e] by auto
  ultimately have l: "Log_remove_failed \<in> set evs \<longleftrightarrow> Log_remove_failed \<in> set (snd ?c)"
    unfolding evs by (simp add: handler_events_def)
  have 1: "\<not> remove_raises e \<longrightarrow> output_video_path j \<notin> fs'" using c fs' by simp
  have 2: "(Log_remove_failed \<in> set evs) = (remove_raises e \<and> output_video_path j \<in> fs')"
    using c l fs' by simp
  have "fst ?c - {output_video_path j} = ?fs1 - {output_video_path j}" using c by blast
  then have 3: "fs' - {output_video_path j} = fs - {output_video_path j}"
    unfolding fs' by auto
  have 4: "add_watermark_to_video j env fsa = Some (Failed r, fsb, evsb)
              \<and> \<not> remove_raises (env (max_retries j - 1)) \<longrightarrow> output_video_path j \<notin> fsb"
    unfolding add_watermark_to_video_def using retry_loop_failed_fs [of j env 0 fsa r fsb evsb]
    by blast
  from 1 2 3 4 show ?thesis by blast
qed

theorem partial_output_removed_witness:
  "output_video_path sample_job \<notin> {}
   \<and> (Log_remove_failed \<in> set [Ffprobe, Popen, Report_error 1 3 (Exit_nonzero 1 []), Sigterm_group,
          Poll, Poll, Wait, Log_terminated, Exists_check, Remove, Log_removed, Backoff 5])
       = (remove_raises exit1_env \<and> output_video_path sample_job \<in> {})
   \<and> ({}::string set) - {output_video_path sample_job} = {} - {output_video_path sample_job}"
proof -
  let ?evs = "[Ffprobe, Popen, Report_error 1 3 (Exit_nonzero 1 []), Sigterm_group,
          Poll, Poll, Wait, Log_terminated, Exists_check, Remove, Log_removed, Backoff 5]"
  have h1: "attempt sample_job exit1_env 0 {} = Some (Continue, {}, ?evs)"
    by code_simp
  have h2: "Continue \<noteq> Returned" by simp
  have h3: "\<not> remove_raises exit1_env" by (simp add: exit1_env_def ok_env_def)
  have h4: "add_watermark_to_video sample_job (always exit1_env) {} =
    Some (Failed (Retries_exhausted 3 (Some (Exit_nonzero 1 []))), {},
     [Ffprobe, Popen, Report_error 1 3 (Exit_nonzero 1 []), Sigterm_group,
      Poll, Poll, Wait, Log_terminated, Exists_check, Remove, Log_removed,
      Backoff 5, Ffprobe, Popen, Report_error 2 3 (Exit_nonzero 1 []),
      Sigterm_group, Poll, Poll, Wait, Log_terminated, Exists_check, Remove,
      Log_removed, Backoff 10, Ffprobe, Popen,
      Report_error 3 3 (Exit_nonzero 1 []), Sigterm_group, Poll, Poll, Wait,
      Log_terminated, Exists_check, Remove, Log_removed])"
    by code_simp
  have h5: "\<not> remove_raises (always exit1_env (max_retries sample_job - 1))"
    by (simp add: always_def exit1_env_def ok_env_def)
  from partial_output_removed [OF h1 h2, where env = "always exit1_env" and fsa = "{}"
      and r = "Retries_exhausted 3 (Some (Exit_nonzero 1 []))" and fsb = "{}"] h3 h4 h5
  show ?thesis by blast
qed


end
